theory Spec2Isabelle
  imports Complex_Main "HOL-Library.Log_Nat" "HOL-Library.Word"
begin

section \<open>Python values used by the reader\<close>

subsection \<open>Strings\<close>

text \<open>
  A Python \<open>str\<close> is modelled as a \<open>string\<close>: one \<open>char\<close> per code point, so
  \<open>length\<close> is Python's \<open>len\<close>. \<open>is_space\<close> is \<open>str.isspace\<close> on the code points a
  \<open>char\<close> can hold: TAB, LF, VT, FF, CR, the separators 0x1C..0x1F, SPACE, NEL (0x85) and
  NBSP (0xA0). These are the characters \<open>str.strip()\<close> removes.
\<close>

definition is_space :: "char \<Rightarrow> bool" where
  "is_space c =
     (let k = of_char c :: nat
      in (9 \<le> k \<and> k \<le> 13) \<or> (28 \<le> k \<and> k \<le> 32) \<or> k = 133 \<or> k = 160)"

text \<open>\<open>s.strip()\<close>: leading and trailing whitespace removed.\<close>

definition strip :: "string \<Rightarrow> string" where
  "strip s = rev (dropWhile is_space (rev (dropWhile is_space s)))"

text \<open>\<open>s.lstrip(chars)\<close> for a one-character \<open>chars\<close>: every leading occurrence is removed.\<close>

definition lstrip :: "char \<Rightarrow> string \<Rightarrow> string" where
  "lstrip c s = dropWhile (\<lambda>x. x = c) s"

text \<open>\<open>s[i:j]\<close> for indices \<open>0 \<le> i\<close>, \<open>0 \<le> j\<close>; an end beyond the string is cut to its length.\<close>

definition py_slice :: "string \<Rightarrow> nat \<Rightarrow> nat \<Rightarrow> string" where
  "py_slice s i j = take (j - i) (drop i s)"

text \<open>
  \<open>s.rfind(c, start, end)\<close> for a one-character \<open>c\<close> and non-negative bounds: the highest
  index \<open>j\<close> with \<open>start \<le> j < min end (len s)\<close> and \<open>s[j] = c\<close>. Python's result \<open>-1\<close> (not
  found) is \<open>None\<close> here.
\<close>

definition rfind :: "string \<Rightarrow> char \<Rightarrow> nat \<Rightarrow> nat \<Rightarrow> nat option" where
  "rfind s c start end =
     (case filter (\<lambda>j. s ! j = c) (rev [start ..< min end (length s)]) of
        [] \<Rightarrow> None
      | j # _ \<Rightarrow> Some j)"

text \<open>\<open>sep.join(xs)\<close>.\<close>

fun join :: "string \<Rightarrow> string list \<Rightarrow> string" where
  "join sep [] = []"
| "join sep [x] = x"
| "join sep (x # y # ys) = x @ sep @ join sep (y # ys)"

subsection \<open>Floats\<close>

text \<open>
  A finite Python \<open>float\<close> is an IEEE binary64 number, modelled by its exact value in
  \<open>rat\<close>. \<open>fl\<close> rounds an exact value to the nearest binary64 number, ties to the even
  mantissa (53 significant bits, subnormal spacing \<open>2^-1074\<close>); every float operation
  of the source is the exact operation followed by \<open>fl\<close>. Overflow to infinity is not
  modelled: the values the reader computes are bounded by the number of pages.
\<close>

definition pow2 :: "int \<Rightarrow> rat" where
  "pow2 e = (if 0 \<le> e then 2 ^ nat e else 1 / 2 ^ nat (- e))"

text \<open>Rounding to the nearest integer, ties to the even one: Python's \<open>round(x)\<close>.\<close>

definition py_round :: "rat \<Rightarrow> int" where
  "py_round x =
     (let f = \<lfloor>x\<rfloor>; d = x - of_int f
      in if d < 1 / 2 then f
         else if 1 / 2 < d then f + 1
         else if even f then f else f + 1)"

text \<open>\<open>ilog2 x\<close> is the exponent \<open>e\<close> with \<open>2^e \<le> x < 2^(e+1)\<close>, for \<open>0 < x\<close>.\<close>

definition ilog2 :: "rat \<Rightarrow> int" where
  "ilog2 x =
     (let (p, q) = quotient_of x; e = bitlen p - bitlen q
      in if pow2 e \<le> x then e else e - 1)"

definition fl :: "rat \<Rightarrow> rat" where
  "fl x =
     (if x = 0 then 0
      else let s = max (ilog2 \<bar>x\<bar> - 52) (- 1074)
           in of_int (py_round (x / pow2 s)) * pow2 s)"

text \<open>\<open>float(k)\<close> for an \<open>int\<close>, the product and the true quotient of two floats.\<close>

definition float_of_int :: "int \<Rightarrow> rat" where
  "float_of_int k = fl (of_int k)"

definition fmul :: "rat \<Rightarrow> rat \<Rightarrow> rat" where
  "fmul a b = fl (a * b)"

text \<open>\<open>a / b\<close> on two \<open>int\<close>s with \<open>b \<noteq> 0\<close>: the correctly rounded quotient.\<close>

definition int_truediv :: "int \<Rightarrow> int \<Rightarrow> rat" where
  "int_truediv a b = fl (of_int a / of_int b)"

text \<open>\<open>int(x)\<close> on a float truncates towards zero.\<close>

definition py_int :: "rat \<Rightarrow> int" where
  "py_int x = (if 0 \<le> x then \<lfloor>x\<rfloor> else \<lceil>x\<rceil>)"

text \<open>The float literal \<open>0.8\<close>: the binary64 number nearest to 4/5.\<close>

definition float_0_8 :: rat where
  "float_0_8 = fl (4 / 5)"

section \<open>The paginator (main.py)\<close>

subsection \<open>Splitting the text into pages\<close>

text \<open>\<open>int(capacity * 0.8)\<close>.\<close>

definition split_margin :: "nat \<Rightarrow> nat" where
  "split_margin capacity = nat (py_int (fmul (float_of_int (int capacity)) float_0_8))"

text \<open>
  One iteration of the \<open>while\<close> loop of \<open>paginate_current_text\<close>, up to the choice of
  \<open>split_pos\<close>.
\<close>

definition split_pos_at :: "nat \<Rightarrow> string \<Rightarrow> nat \<Rightarrow> nat" where
  "split_pos_at capacity text i =
     (let n = length text;
          end = min (i + capacity) n;
          split_from = min n (i + split_margin capacity)
      in case rfind text CHR '' '' split_from end of
           None \<Rightarrow> end
         | Some split_pos \<Rightarrow> if split_pos \<le> i then end else split_pos)"

text \<open>
  The loop itself. With \<open>capacity = 0\<close> the source never leaves the loop, so the model is
  a partial function: \<open>None\<close> is non-termination.
\<close>

partial_function (option) split_loop :: "nat \<Rightarrow> string \<Rightarrow> nat \<Rightarrow> string list \<Rightarrow> string list option" where
  "split_loop capacity text i pages =
     (if i < length text then
        let split_pos = split_pos_at capacity text i;
            page_text = strip (py_slice text i split_pos)
        in split_loop capacity text split_pos (pages @ [page_text])
      else Some pages)"

declare split_loop.simps [code]

subsection \<open>The splitting algorithm as the specification words it\<close>

text \<open>
  The last space character within \<open>[lo, hi)\<close>: the greatest position of the text in that
  range that holds a space, if there is one.
\<close>

definition spec_last_space :: "string \<Rightarrow> nat \<Rightarrow> nat \<Rightarrow> nat option" where
  "spec_last_space text lo hi =
     (let js = filter (\<lambda>j. j < length text \<and> text ! j = CHR '' '') [lo ..< hi]
      in if js = [] then None else Some (Max (set js)))"

text \<open>
  \<open>end = min(i + capacity, length)\<close>; cut at the last space within
  \<open>[i + floor(capacity * 0.8), end)\<close> when it is found at a position \<open>> i\<close>, otherwise at
  \<open>end\<close>. The product \<open>capacity * 0.8\<close> is the float product.
\<close>

definition spec_split_pos :: "nat \<Rightarrow> string \<Rightarrow> nat \<Rightarrow> nat" where
  "spec_split_pos capacity text i =
     (let end = min (i + capacity) (length text)
      in case spec_last_space text
                (i + nat \<lfloor>fmul (float_of_int (int capacity)) float_0_8\<rfloor>) end of
           Some j \<Rightarrow> if i < j then j else end
         | None \<Rightarrow> end)"

text \<open>
  The pages emitted from position \<open>i\<close> on, for a capacity \<open>> 0\<close>: while \<open>i < length\<close>, emit
  \<open>trim(text[i:splitPos])\<close> and advance \<open>i\<close> to \<open>splitPos\<close>.
\<close>

function spec_pages :: "nat \<Rightarrow> string \<Rightarrow> nat \<Rightarrow> string list" where
  "spec_pages capacity text i =
     (if 0 < capacity \<and> i < length text then
        strip (py_slice text i (spec_split_pos capacity text i))
          # spec_pages capacity text (spec_split_pos capacity text i)
      else [])"
  by pat_completeness auto
termination
  by (relation "measure (\<lambda>(capacity, text, i). length text - i)")
    (auto simp: spec_split_pos_def Let_def split: option.splits)

declare spec_pages.simps [simp del]


subsection \<open>Capacity estimate\<close>

text \<open>
  The four numbers \<open>paginate_current_text\<close> reads from the widget: the viewport's width
  and height and the font's average character width and line spacing.
\<close>

record viewport_metrics =
  viewport_width :: int
  viewport_height :: int
  average_char_width :: int
  line_spacing :: int

definition page_capacity :: "viewport_metrics \<Rightarrow> int" where
  "page_capacity m =
     (let width = max 1 (viewport_width m);
          height = max 1 (viewport_height m);
          avg_char_w = max 1 (average_char_width m);
          line_h = max 1 (line_spacing m);
          chars_per_line = max 20 (width div avg_char_w);
          lines_per_page = max 3 (height div line_h)
      in chars_per_line * lines_per_page)"

subsection \<open>The reading session\<close>

text \<open>
  The fields of \<open>MainWindow\<close> the paginator reads and writes. \<open>reader_edit\<close> is the text
  shown by the reader widget (\<open>setPlainText\<close>); the percent and page-number labels and the
  enabled state of the buttons are not modelled. \<open>book_progress\<close> is the dictionary from
  absolute path to ratio; \<open>os.path.abspath\<close> is the parameter \<open>abspath\<close>.
\<close>

record reader =
  current_book_path :: "string option"
  book_progress :: "string \<Rightarrow> rat option"
  is_reading :: bool
  current_full_text :: "string option"
  pages :: "string list"
  current_page_index :: int
  reader_edit :: string

text \<open>Python's truth value of an \<open>Optional[str]\<close>: \<open>None\<close> and \<open>""\<close> are false.\<close>

definition truthy :: "string option \<Rightarrow> bool" where
  "truthy s = (case s of None \<Rightarrow> False | Some x \<Rightarrow> x \<noteq> [])"

definition update_page_and_progress_labels :: "(string \<Rightarrow> string) \<Rightarrow> reader \<Rightarrow> rat \<Rightarrow> reader" where
  "update_page_and_progress_labels abspath st ratio =
     (let total_pages = (if is_reading st \<and> pages st \<noteq> [] then length (pages st) else 0)
      in if \<not> is_reading st \<or> total_pages = 0 then st
         else let ratio = max 0 (min 1 ratio)
              in case current_book_path st of
                   None \<Rightarrow> st
                 | Some p \<Rightarrow>
                     if p = [] then st
                     else st\<lparr>book_progress := (book_progress st)(abspath p \<mapsto> ratio)\<rparr>)"

definition show_current_page :: "(string \<Rightarrow> string) \<Rightarrow> reader \<Rightarrow> reader" where
  "show_current_page abspath st =
     (if pages st = [] then update_page_and_progress_labels abspath (st\<lparr>reader_edit := []\<rparr>) 0
      else let idx = max 0 (min (current_page_index st) (int (length (pages st)) - 1));
               st = st\<lparr>current_page_index := idx, reader_edit := pages st ! nat idx\<rparr>;
               ratio = (if length (pages st) = 1 then 0
                        else int_truediv idx (int (length (pages st)) - 1))
           in update_page_and_progress_labels abspath st ratio)"

text \<open>
  \<open>paginate_current_text\<close>. The result is \<open>None\<close> when the splitting loop does not
  terminate.
\<close>

definition paginate_current_text ::
  "(string \<Rightarrow> string) \<Rightarrow> viewport_metrics \<Rightarrow> reader \<Rightarrow> rat \<Rightarrow> reader option" where
  "paginate_current_text abspath m st ratio =
     (if \<not> truthy (current_full_text st) then
        Some (show_current_page abspath (st\<lparr>pages := [[]], current_page_index := 0\<rparr>))
      else
        let capacity = page_capacity m;
            text = (case current_full_text st of Some t \<Rightarrow> t | None \<Rightarrow> [])
        in case split_loop (nat capacity) text 0 [] of
             None \<Rightarrow> None
           | Some pages0 \<Rightarrow>
               let pages1 = (if pages0 = [] then [[]] else pages0);
                   st = st\<lparr>pages := pages1\<rparr>;
                   st = (if length pages1 = 1 then st\<lparr>current_page_index := 0\<rparr>
                         else let ratio = max 0 (min 1 ratio)
                              in st\<lparr>current_page_index :=
                                      py_round (fmul ratio (float_of_int (int (length pages1) - 1)))\<rparr>)
               in Some (show_current_page abspath st))"

subsection \<open>Page navigation\<close>

definition go_to_page :: "(string \<Rightarrow> string) \<Rightarrow> reader \<Rightarrow> int \<Rightarrow> reader" where
  "go_to_page abspath st page_index =
     (if \<not> is_reading st \<or> pages st = [] then st
      else let total = int (length (pages st));
               page_index = max 0 (min page_index (total - 1))
           in show_current_page abspath (st\<lparr>current_page_index := page_index\<rparr>))"

definition go_next_page :: "(string \<Rightarrow> string) \<Rightarrow> reader \<Rightarrow> reader" where
  "go_next_page abspath st =
     (if \<not> is_reading st then st else go_to_page abspath st (current_page_index st + 1))"

definition go_prev_page :: "(string \<Rightarrow> string) \<Rightarrow> reader \<Rightarrow> reader" where
  "go_prev_page abspath st =
     (if \<not> is_reading st then st else go_to_page abspath st (current_page_index st - 1))"

text \<open>\<open>on_reader_resized\<close>: the viewport changed, \<open>m\<close> holds the new metrics.\<close>

definition on_reader_resized ::
  "(string \<Rightarrow> string) \<Rightarrow> viewport_metrics \<Rightarrow> reader \<Rightarrow> reader option" where
  "on_reader_resized abspath m st =
     (if \<not> is_reading st \<or> \<not> truthy (current_full_text st) \<or> \<not> truthy (current_book_path st)
      then Some st
      else let abs_path = abspath (case current_book_path st of Some p \<Rightarrow> p | None \<Rightarrow> []);
               ratio = (case book_progress st abs_path of Some r \<Rightarrow> r | None \<Rightarrow> 0)
           in paginate_current_text abspath m st ratio)"

section \<open>The FB2 parser (fb2_utils.py)\<close>

subsection \<open>Element trees\<close>

text \<open>
  An \<open>xml.etree.ElementTree\<close> element: its tag, its attribute dictionary, its text, its
  tail and its child elements. The source reads \<open>text\<close> and \<open>tail\<close> only through
  \<open>itertext\<close>, which skips \<open>None\<close> and \<open>""\<close> alike, so one \<open>string\<close> stands for both.
  The parser of \<open>ET.parse\<close> drops comments and processing instructions, so every tag is
  a string.
\<close>

datatype element =
  Element (tag: string) (attrib: "(string \<times> string) list") (etext: string) (tail: string)
    (children: "element list")

text \<open>\<open>elem.iter()\<close>: the element, then the elements below it, in document order.\<close>

fun iter :: "element \<Rightarrow> element list" where
  "iter (Element t a x y cs) = Element t a x y cs # concat (map iter cs)"

text \<open>\<open>elem.itertext()\<close>: the text, then for each child its inner texts and its tail.\<close>

fun itertext :: "element \<Rightarrow> string list" where
  "itertext (Element t a x y cs) =
     (if x \<noteq> [] then [x] else []) @
     concat (map (\<lambda>e. itertext e @ (if tail e \<noteq> [] then [tail e] else [])) cs)"

text \<open>The exceptions \<open>ET.parse\<close> and \<open>base64.b64decode\<close> raise; all derive from \<open>Exception\<close>.\<close>

datatype py_exception = ParseError | OSError | BinasciiError | ValueError

type_synonym bytes = "8 word list"

subsection \<open>Paths\<close>

text \<open>\<open>os.path.basename\<close> and the first component of \<open>os.path.splitext\<close> (\<open>posixpath\<close>).\<close>

definition basename :: "string \<Rightarrow> string" where
  "basename p = rev (takeWhile (\<lambda>c. c \<noteq> CHR ''/'') (rev p))"

definition splitext_root :: "string \<Rightarrow> string" where
  "splitext_root p =
     (case rfind p CHR ''.'' 0 (length p) of
        None \<Rightarrow> p
      | Some dotIndex \<Rightarrow>
          let filenameIndex = (case rfind p CHR ''/'' 0 (length p) of
                                 None \<Rightarrow> 0
                               | Some sepIndex \<Rightarrow> sepIndex + 1)
          in if filenameIndex \<le> dotIndex \<and>
                list_ex (\<lambda>k. p ! k \<noteq> CHR ''.'') [filenameIndex ..< dotIndex]
             then take dotIndex p else p)"

subsection \<open>Helpers\<close>

definition local_name :: "string \<Rightarrow> string" where
  "local_name t =
     (if CHR ''}'' \<in> set t then tl (dropWhile (\<lambda>c. c \<noteq> CHR ''}'') t) else t)"

definition iter_children_with_name :: "element \<Rightarrow> string \<Rightarrow> element list" where
  "iter_children_with_name elem name =
     filter (\<lambda>child. local_name (tag child) = name) (children elem)"

definition find_first_child :: "element \<Rightarrow> string \<Rightarrow> element option" where
  "find_first_child elem name =
     find (\<lambda>child. local_name (tag child) = name) (children elem)"

definition elem_text :: "element option \<Rightarrow> string" where
  "elem_text elem =
     (case elem of
        None \<Rightarrow> []
      | Some e \<Rightarrow> concat (filter (\<lambda>t. t \<noteq> []) (itertext e)))"

subsection \<open>Title only\<close>

definition extract_fb2_title ::
  "(string \<Rightarrow> py_exception + element) \<Rightarrow> string \<Rightarrow> py_exception + string" where
  "extract_fb2_title et_parse path =
     (case et_parse path of
        Inl e \<Rightarrow> Inr (splitext_root (basename path))
      | Inr root_el \<Rightarrow>
          let fallback = Inr (splitext_root (basename path))
          in case find_first_child root_el ''description'' of
               None \<Rightarrow> fallback
             | Some description_elem \<Rightarrow>
                 (case find_first_child description_elem ''title-info'' of
                    None \<Rightarrow> fallback
                  | Some title_info \<Rightarrow>
                      (case find_first_child title_info ''book-title'' of
                         None \<Rightarrow> fallback
                       | Some book_title \<Rightarrow>
                           let t = strip (elem_text (Some book_title))
                           in if t \<noteq> [] then Inr t else fallback)))"

subsection \<open>The full record\<close>

record BookInfo =
  title :: "string option"
  authors :: "string list"
  genres :: "string list"
  publisher :: "string option"
  date :: "string option"
  lang :: "string option"
  description :: "string option"
  cover_bytes :: "bytes option"
  full_text :: "string option"

text \<open>\<open>BookInfo()\<close>.\<close>

definition BookInfo_default :: BookInfo where
  "BookInfo_default =
     \<lparr>title = None, authors = [], genres = [], publisher = None, date = None, lang = None,
      description = None, cover_bytes = None, full_text = None\<rparr>"

text \<open>
  The sections of \<open>parse_fb2_book_info\<close>, one definition each, in the order of the
  source; each takes the record built so far and returns it updated.
\<close>

definition parse_title :: "string \<Rightarrow> element option \<Rightarrow> BookInfo \<Rightarrow> BookInfo" where
  "parse_title path title_info info =
     (let info =
        (case title_info of
           None \<Rightarrow> info
         | Some ti \<Rightarrow>
             (case find_first_child ti ''book-title'' of
                None \<Rightarrow> info
              | Some book_title \<Rightarrow>
                  let t = strip (elem_text (Some book_title))
                  in if t \<noteq> [] then info\<lparr>title := Some t\<rparr> else info))
      in if \<not> truthy (title info)
         then info\<lparr>title := Some (splitext_root (basename path))\<rparr> else info)"

definition author_name :: "element \<Rightarrow> string" where
  "author_name author =
     (let first_name = find_first_child author ''first-name'';
          last_name = find_first_child author ''last-name'';
          middle_name = find_first_child author ''middle-name'';
          parts = (if first_name \<noteq> None then [strip (elem_text first_name)] else []) @
                  (if middle_name \<noteq> None then [strip (elem_text middle_name)] else []) @
                  (if last_name \<noteq> None then [strip (elem_text last_name)] else [])
      in join '' '' (filter (\<lambda>p. p \<noteq> []) parts))"

fun authors_loop :: "element list \<Rightarrow> string list \<Rightarrow> string list" where
  "authors_loop [] acc = acc"
| "authors_loop (author # rest) acc =
     (let name = author_name author
      in authors_loop rest (if name \<noteq> [] then acc @ [name] else acc))"

definition parse_authors :: "element option \<Rightarrow> BookInfo \<Rightarrow> BookInfo" where
  "parse_authors title_info info =
     (case title_info of
        None \<Rightarrow> info
      | Some ti \<Rightarrow>
          info\<lparr>authors := authors_loop (iter_children_with_name ti ''author'') (authors info)\<rparr>)"

fun genres_loop :: "element list \<Rightarrow> string list \<Rightarrow> string list" where
  "genres_loop [] acc = acc"
| "genres_loop (genre # rest) acc =
     (let g = strip (elem_text (Some genre))
      in genres_loop rest (if g \<noteq> [] then acc @ [g] else acc))"

definition parse_genres :: "element option \<Rightarrow> BookInfo \<Rightarrow> BookInfo" where
  "parse_genres title_info info =
     (case title_info of
        None \<Rightarrow> info
      | Some ti \<Rightarrow>
          info\<lparr>genres := genres_loop (iter_children_with_name ti ''genre'') (genres info)\<rparr>)"

text \<open>
  The pattern ``find the child; if it is there, take its stripped text; if that is not
  empty, store it'', which the source writes out for each text field.
\<close>

definition child_text :: "element \<Rightarrow> string \<Rightarrow> string option" where
  "child_text parent name =
     (case find_first_child parent name of
        None \<Rightarrow> None
      | Some c \<Rightarrow> let t = strip (elem_text (Some c)) in if t \<noteq> [] then Some t else None)"

definition parse_lang :: "element option \<Rightarrow> BookInfo \<Rightarrow> BookInfo" where
  "parse_lang title_info info =
     (case title_info of
        None \<Rightarrow> info
      | Some ti \<Rightarrow>
          (case child_text ti ''lang'' of None \<Rightarrow> info | Some t \<Rightarrow> info\<lparr>lang := Some t\<rparr>))"

definition parse_publisher_date ::
  "element option \<Rightarrow> element option \<Rightarrow> BookInfo \<Rightarrow> BookInfo" where
  "parse_publisher_date publish_info title_info info =
     (let info =
        (case publish_info of
           None \<Rightarrow> info
         | Some pinfo \<Rightarrow>
             let info = (case child_text pinfo ''publisher'' of
                           None \<Rightarrow> info | Some t \<Rightarrow> info\<lparr>publisher := Some t\<rparr>)
             in (case child_text pinfo ''year'' of
                   None \<Rightarrow> info | Some t \<Rightarrow> info\<lparr>date := Some t\<rparr>))
      in if \<not> truthy (date info) \<and> title_info \<noteq> None
         then (case title_info of
                 None \<Rightarrow> info
               | Some ti \<Rightarrow>
                   (case child_text ti ''date'' of
                      None \<Rightarrow> info | Some t \<Rightarrow> info\<lparr>date := Some t\<rparr>))
         else info)"

text \<open>
  \<open>for elem in x.iter(): if _local_name(elem.tag) == "p": ...\<close>, the loop that collects
  the non-empty stripped paragraph texts; \<open>paras\<close> is the list built so far.
\<close>

fun paragraphs_loop :: "element list \<Rightarrow> string list \<Rightarrow> string list" where
  "paragraphs_loop [] paras = paras"
| "paragraphs_loop (elem # rest) paras =
     (if local_name (tag elem) = ''p'' then
        let t = strip (elem_text (Some elem))
        in paragraphs_loop rest (if t \<noteq> [] then paras @ [t] else paras)
      else paragraphs_loop rest paras)"

definition parse_annotation :: "element option \<Rightarrow> BookInfo \<Rightarrow> BookInfo" where
  "parse_annotation title_info info =
     (case title_info of
        None \<Rightarrow> info
      | Some ti \<Rightarrow>
          (case find_first_child ti ''annotation'' of
             None \<Rightarrow> info
           | Some annotation \<Rightarrow>
               let paras = paragraphs_loop (iter annotation) []
               in if paras \<noteq> []
                  then info\<lparr>description := Some (join [CHR 0x0A, CHR 0x0A] paras)\<rparr>
                  else info))"

text \<open>\<open>a or b\<close> on two \<open>Optional[str]\<close>.\<close>

definition py_or :: "string option \<Rightarrow> string option \<Rightarrow> string option" where
  "py_or a b = (if truthy a then a else b)"

definition cover_id_of :: "element option \<Rightarrow> string option" where
  "cover_id_of title_info =
     (case title_info of
        None \<Rightarrow> None
      | Some ti \<Rightarrow>
          (case find_first_child ti ''coverpage'' of
             None \<Rightarrow> None
           | Some coverpage \<Rightarrow>
               (case find_first_child coverpage ''image'' of
                  None \<Rightarrow> None
                | Some image_elem \<Rightarrow>
                    let href = py_or (map_of (attrib image_elem) ''href'')
                                 (map_of (attrib image_elem) ''{http://www.w3.org/1999/xlink}href'')
                    in if truthy href
                       then map_option (lstrip CHR ''#'') href
                       else None)))"

text \<open>
  \<open>for bin_elem in root.iter()\<close> with its \<open>break\<close>: the loop stops at the first \<open>binary\<close>
  element with the wanted id. \<open>b64decode\<close> is \<open>base64.b64decode\<close>, \<open>Inl\<close> when it raises.
\<close>

fun binary_loop ::
  "(string \<Rightarrow> py_exception + bytes) \<Rightarrow> string \<Rightarrow> element list \<Rightarrow> BookInfo \<Rightarrow> BookInfo" where
  "binary_loop b64decode cover_id [] info = info"
| "binary_loop b64decode cover_id (bin_elem # rest) info =
     (if local_name (tag bin_elem) = ''binary'' \<and>
         map_of (attrib bin_elem) ''id'' = Some cover_id
      then let data_base64 = strip (elem_text (Some bin_elem))
           in if data_base64 \<noteq> []
              then (case b64decode data_base64 of
                      Inr b \<Rightarrow> info\<lparr>cover_bytes := Some b\<rparr>
                    | Inl e \<Rightarrow> info\<lparr>cover_bytes := None\<rparr>)
              else info
      else binary_loop b64decode cover_id rest info)"

definition parse_cover ::
  "(string \<Rightarrow> py_exception + bytes) \<Rightarrow> element \<Rightarrow> element option \<Rightarrow> BookInfo \<Rightarrow> BookInfo" where
  "parse_cover b64decode root_el title_info info =
     (let cover_id = cover_id_of title_info
      in if truthy cover_id
         then (case cover_id of
                 None \<Rightarrow> info
               | Some cid \<Rightarrow> binary_loop b64decode cid (iter root_el) info)
         else info)"

text \<open>\<open>for body in root\<close>, with its \<open>continue\<close> for a child that is not a \<open>body\<close>.\<close>

fun body_loop :: "element list \<Rightarrow> string list \<Rightarrow> string list" where
  "body_loop [] paragraphs = paragraphs"
| "body_loop (body # rest) paragraphs =
     (if local_name (tag body) \<noteq> ''body'' then body_loop rest paragraphs
      else body_loop rest (paragraphs_loop (iter body) paragraphs))"

definition parse_body :: "element \<Rightarrow> BookInfo \<Rightarrow> BookInfo" where
  "parse_body root_el info =
     (let paragraphs = body_loop (children root_el) []
      in if paragraphs \<noteq> []
         then info\<lparr>full_text := Some (join [CHR 0x0A, CHR 0x0A] paragraphs)\<rparr>
         else info\<lparr>full_text := None\<rparr>)"

definition parse_fb2_book_info ::
  "(string \<Rightarrow> py_exception + element) \<Rightarrow> (string \<Rightarrow> py_exception + bytes) \<Rightarrow> string
     \<Rightarrow> py_exception + BookInfo" where
  "parse_fb2_book_info et_parse b64decode path =
     (let info = BookInfo_default
      in case et_parse path of
           Inl e \<Rightarrow> Inr (info\<lparr>title := Some (splitext_root (basename path))\<rparr>)
         | Inr root_el \<Rightarrow>
             let description_elem = find_first_child root_el ''description'';
                 title_info = (case description_elem of
                                 None \<Rightarrow> None
                               | Some d \<Rightarrow> find_first_child d ''title-info'');
                 publish_info = (case description_elem of
                                   None \<Rightarrow> None
                                 | Some d \<Rightarrow> find_first_child d ''publish-info'');
                 info = parse_title path title_info info;
                 info = parse_authors title_info info;
                 info = parse_genres title_info info;
                 info = parse_lang title_info info;
                 info = parse_publisher_date publish_info title_info info;
                 info = parse_annotation title_info info;
                 info = parse_cover b64decode root_el title_info info;
                 info = parse_body root_el info
             in Inr info)"

subsection \<open>The extractor as the specification words it\<close>

text \<open>The element reached from \<open>e\<close> by a path of first children with the given names.\<close>

fun lookup_path :: "element \<Rightarrow> string list \<Rightarrow> element option" where
  "lookup_path e [] = Some e"
| "lookup_path e (n # ns) =
     (case find_first_child e n of None \<Rightarrow> None | Some c \<Rightarrow> lookup_path c ns)"

text \<open>
  The title: the trimmed text of \<open>description/title-info/book-title\<close> when it is not
  empty, otherwise (also when parsing fails) the file's base name without extension.
\<close>

definition spec_title :: "(string \<Rightarrow> py_exception + element) \<Rightarrow> string \<Rightarrow> string" where
  "spec_title et_parse path =
     (case et_parse path of
        Inl e \<Rightarrow> splitext_root (basename path)
      | Inr root_el \<Rightarrow>
          (case lookup_path root_el [''description'', ''title-info'', ''book-title''] of
             None \<Rightarrow> splitext_root (basename path)
           | Some book_title \<Rightarrow>
               if strip (elem_text (Some book_title)) \<noteq> []
               then strip (elem_text (Some book_title))
               else splitext_root (basename path)))"

text \<open>
  The \<open>p\<close> elements of the body sections: every descendant \<open>p\<close> of every direct child of
  the root whose local name is \<open>body\<close>, in document order across the bodies.
\<close>

definition body_paragraphs :: "element \<Rightarrow> element list" where
  "body_paragraphs root_el =
     filter (\<lambda>e. local_name (tag e) = ''p'')
       (concat (map iter (filter (\<lambda>b. local_name (tag b) = ''body'') (children root_el))))"

text \<open>
  The full text: the non-empty trimmed texts of those paragraphs joined with a blank
  line, absent when there is none.
\<close>

definition spec_full_text :: "element \<Rightarrow> string option" where
  "spec_full_text root_el =
     (let ps = filter (\<lambda>t. t \<noteq> []) (map (\<lambda>p. strip (elem_text (Some p))) (body_paragraphs root_el))
      in if ps = [] then None else Some (join [CHR 0x0A, CHR 0x0A] ps))"

text \<open>
  The image reference: the unprefixed \<open>href\<close> attribute of
  \<open>description/title-info/coverpage/image\<close>, or its XLink-namespaced \<open>href\<close>.
\<close>

definition spec_image_href :: "element \<Rightarrow> string option" where
  "spec_image_href root_el =
     (case lookup_path root_el [''description'', ''title-info'', ''coverpage'', ''image''] of
        None \<Rightarrow> None
      | Some image_elem \<Rightarrow>
          (case map_of (attrib image_elem) ''href'' of
             None \<Rightarrow> map_of (attrib image_elem) ''{http://www.w3.org/1999/xlink}href''
           | Some h \<Rightarrow>
               if h \<noteq> [] then Some h
               else map_of (attrib image_elem) ''{http://www.w3.org/1999/xlink}href''))"

text \<open>Stripping a leading \<open>#\<close>: one \<open>#\<close>, if the reference starts with one.\<close>

definition strip_one_hash :: "string \<Rightarrow> string" where
  "strip_one_hash s = (case s of [] \<Rightarrow> [] | c # r \<Rightarrow> if c = CHR ''#'' then r else s)"

text \<open>
  The cover: the reference with its leading \<open>#\<close> stripped by \<open>strip_ref\<close>, resolved against
  the first \<open>binary\<close> element in document order whose \<open>id\<close> is the reference, whose
  trimmed text content is decoded; absent when the reference is missing or empty, when
  no \<open>binary\<close> matches, when the content is empty and when decoding fails.
\<close>

definition spec_cover ::
  "(string \<Rightarrow> string) \<Rightarrow> (string \<Rightarrow> py_exception + bytes) \<Rightarrow> element \<Rightarrow> bytes option" where
  "spec_cover strip_ref b64decode root_el =
     (case spec_image_href root_el of
        None \<Rightarrow> None
      | Some href \<Rightarrow>
          if href = [] \<or> strip_ref href = [] then None
          else (case find (\<lambda>e. local_name (tag e) = ''binary'' \<and>
                               map_of (attrib e) ''id'' = Some (strip_ref href)) (iter root_el) of
                  None \<Rightarrow> None
                | Some b \<Rightarrow>
                    if strip (elem_text (Some b)) = [] then None
                    else (case b64decode (strip (elem_text (Some b))) of
                            Inl e \<Rightarrow> None
                          | Inr data \<Rightarrow> Some data)))"

text \<open>The \<open>title_info\<close> of \<open>parse_fb2_book_info\<close>: \<open>description/title-info\<close>.\<close>

abbreviation title_info_of :: "element \<Rightarrow> element option" where
  "title_info_of root_el \<equiv>
     (case find_first_child root_el ''description'' of
        None \<Rightarrow> None
      | Some d \<Rightarrow> find_first_child d ''title-info'')"


section \<open>Properties of the paginator\<close>

subsection \<open>Searching and trimming\<close>

lemma rfind_SomeD:
  assumes "rfind s c a b = Some j"
  shows "a \<le> j" and "j < b" and "j < length s" and "s ! j = c"
proof -
  from assms obtain r where "filter (\<lambda>j. s ! j = c) (rev [a ..< min b (length s)]) = j # r"
    by (auto simp: rfind_def split: list.splits)
  then have "j \<in> set (filter (\<lambda>j. s ! j = c) (rev [a ..< min b (length s)]))"
    by simp
  then show "a \<le> j" and "j < b" and "j < length s" and "s ! j = c"
    by auto
qed

lemma rfind_None_iff:
  "rfind s c a b = None \<longleftrightarrow> (\<forall>j. a \<le> j \<and> j < b \<and> j < length s \<longrightarrow> s ! j \<noteq> c)"
proof -
  have "rfind s c a b = None \<longleftrightarrow> filter (\<lambda>j. s ! j = c) (rev [a ..< min b (length s)]) = []"
    by (simp add: rfind_def split: list.splits)
  also have "\<dots> \<longleftrightarrow> (\<forall>j. a \<le> j \<and> j < b \<and> j < length s \<longrightarrow> s ! j \<noteq> c)"
    by (auto simp: filter_empty_conv)
  finally show ?thesis .
qed

lemma length_strip_le: "length (strip s) \<le> length s"
proof -
  have "length (strip s) = length (dropWhile is_space (rev (dropWhile is_space s)))"
    by (simp add: strip_def)
  also have "\<dots> \<le> length (rev (dropWhile is_space s))"
    by (rule length_dropWhile_le)
  also have "\<dots> \<le> length s"
    by (simp add: length_dropWhile_le)
  finally show ?thesis .
qed

lemma strip_no_space: "\<forall>c \<in> set s. \<not> is_space c \<Longrightarrow> strip s = s"
proof -
  assume a: "\<forall>c \<in> set s. \<not> is_space c"
  then have 1: "dropWhile is_space s = s"
    by (cases s) auto
  from a have "dropWhile is_space (rev s) = rev s"
    by (cases "rev s") (auto dest: arg_cong [where f = set])
  with 1 show ?thesis
    by (simp add: strip_def)
qed

lemma length_py_slice: "length (py_slice s i j) = min (j - i) (length s - i)"
  by (simp add: py_slice_def min.commute)

subsection \<open>One iteration\<close>

lemma split_pos_at_bounds:
  assumes "0 < capacity" and "i < length text"
  shows "i < split_pos_at capacity text i"
    and "split_pos_at capacity text i \<le> length text"
    and "split_pos_at capacity text i \<le> i + capacity"
  using assms
  by (auto simp: split_pos_at_def Let_def split: option.splits dest: rfind_SomeD)

subsection \<open>The loop\<close>

text \<open>
  A loop rule: an invariant \<open>I\<close> of the position and the pages emitted so far that every
  iteration keeps. The loop returns, the invariant holds at the exit position, and a
  non-empty rest of the text adds at least one page.
\<close>

lemma split_loop_rule:
  assumes cap: "0 < capacity"
    and step: "\<And>j acc. I j acc \<Longrightarrow> j < length tx \<Longrightarrow>
                 I (split_pos_at capacity tx j)
                   (acc @ [strip (py_slice tx j (split_pos_at capacity tx j))])"
    and "I i pgs"
  shows "\<exists>ps k. split_loop capacity tx i pgs = Some ps \<and> length tx \<le> k \<and> I k ps \<and>
           (if i < length tx then length pgs < length ps else ps = pgs)"
  using assms(3)
proof (induction "length tx - i" arbitrary: i pgs rule: less_induct)
  case less
  show ?case
  proof (cases "i < length tx")
    case False
    then have "split_loop capacity tx i pgs = Some pgs"
      by (subst split_loop.simps) simp
    with False less.prems show ?thesis
      by (intro exI [of _ pgs] exI [of _ i]) simp
  next
    case True
    let ?sp = "split_pos_at capacity tx i"
    let ?pg = "strip (py_slice tx i ?sp)"
    have b: "i < ?sp" "?sp \<le> length tx"
      using split_pos_at_bounds [OF cap True] by simp_all
    then have m: "length tx - ?sp < length tx - i"
      using True by arith
    have s: "I ?sp (pgs @ [?pg])"
      using step [OF less.prems True] .
    from less.hyps [OF m s]
    obtain ps k where ps: "split_loop capacity tx ?sp (pgs @ [?pg]) = Some ps"
      "length tx \<le> k" "I k ps"
      "if ?sp < length tx then length (pgs @ [?pg]) < length ps else ps = pgs @ [?pg]"
      by blast
    have "split_loop capacity tx i pgs = Some ps"
      using True ps(1) by (subst split_loop.simps) (simp add: Let_def)
    moreover have "length pgs < length ps"
      using ps(4) by (auto split: if_splits)
    ultimately show ?thesis
      using True ps(2,3) by auto
  qed
qed

lemma split_loop_returns:
  "0 < capacity \<Longrightarrow> \<exists>ps. split_loop capacity text i pgs = Some ps"
  using split_loop_rule [of capacity "\<lambda>_ _. True" "text" i pgs]
  by auto

text \<open>Every page of the result has a property that every page cut from the text has.\<close>

lemma split_loop_pages:
  assumes cap: "0 < capacity"
    and step: "\<And>j. j < length tx \<Longrightarrow> Q (strip (py_slice tx j (split_pos_at capacity tx j)))"
    and res: "split_loop capacity tx i pgs = Some ps"
    and init: "\<forall>p \<in> set pgs. Q p"
  shows "\<forall>p \<in> set ps. Q p"
proof -
  have "\<exists>ps k. split_loop capacity tx i pgs = Some ps \<and> length tx \<le> k \<and>
          (\<forall>p \<in> set ps. Q p) \<and> (if i < length tx then length pgs < length ps else ps = pgs)"
    using cap
  proof (rule split_loop_rule [where I = "\<lambda>_ acc. \<forall>p \<in> set acc. Q p"])
    show "\<forall>p \<in> set pgs. Q p"
      by (rule init)
  next
    fix j and acc :: "string list"
    assume "\<forall>p \<in> set acc. Q p" and "j < length tx"
    then show "\<forall>p \<in> set (acc @ [strip (py_slice tx j (split_pos_at capacity tx j))]). Q p"
      using step by simp
  qed
  with res show ?thesis
    by auto
qed

lemma split_loop_nonempty:
  assumes "0 < capacity" and "tx \<noteq> []" and "split_loop capacity tx 0 [] = Some ps"
  shows "ps \<noteq> []"
  using split_loop_rule [of capacity "\<lambda>_ _. True" tx 0 "[]"] assms
  by auto

text \<open>
  A text without whitespace whose length is a multiple of the capacity is cut into
  pages of exactly the capacity.
\<close>

lemma split_pos_at_no_space:
  assumes "\<forall>c \<in> set tx. \<not> is_space c" and "j < length tx"
  shows "split_pos_at capacity tx j = min (j + capacity) (length tx)"
proof -
  have "is_space CHR '' ''"
    by (simp add: is_space_def)
  with assms(1) have "\<forall>k < length tx. tx ! k \<noteq> CHR '' ''"
    by (metis nth_mem)
  then have "rfind tx CHR '' '' a b = None" for a b
    by (simp add: rfind_None_iff)
  then show ?thesis
    by (simp add: split_pos_at_def Let_def)
qed

lemma split_loop_no_space:
  assumes cap: "0 < capacity" and ns: "\<forall>c \<in> set tx. \<not> is_space c"
    and len: "length tx = k * capacity"
  shows "\<exists>ps. split_loop capacity tx 0 [] = Some ps \<and> length ps = k \<and>
           (\<forall>p \<in> set ps. length p = capacity)"
proof -
  let ?I = "\<lambda>j acc. j = length acc * capacity \<and> j \<le> length tx \<and>
              (\<forall>p \<in> set acc. length p = capacity)"
  have "\<exists>ps e. split_loop capacity tx 0 [] = Some ps \<and> length tx \<le> e \<and> ?I e ps \<and>
          (if 0 < length tx then length ([]::string list) < length ps else ps = [])"
    using cap
  proof (rule split_loop_rule [where I = "\<lambda>j acc. j = length acc * capacity \<and> j \<le> length tx \<and>
              (\<forall>p \<in> set acc. length p = capacity)"])
    show "?I 0 []"
      by simp
  next
    fix j and acc :: "string list"
    assume I: "?I j acc" and j: "j < length tx"
    let ?sp = "split_pos_at capacity tx j"
    from I j len have "length acc < k"
      using cap by simp
    then have "Suc (length acc) * capacity \<le> k * capacity"
      by (intro mult_le_mono1) simp
    with I len have le: "j + capacity \<le> length tx"
      by simp
    then have sp: "?sp = j + capacity"
      using split_pos_at_no_space [OF ns j] by simp
    have "set (py_slice tx j ?sp) \<subseteq> set tx"
      unfolding py_slice_def by (meson order_trans set_drop_subset set_take_subset)
    with ns have "strip (py_slice tx j ?sp) = py_slice tx j ?sp"
      by (intro strip_no_space) auto
    moreover have "length (py_slice tx j ?sp) = capacity"
      using le sp by (simp add: length_py_slice)
    ultimately show "?I ?sp (acc @ [strip (py_slice tx j ?sp)])"
      using I sp le by simp
  qed
  then obtain ps e where r: "split_loop capacity tx 0 [] = Some ps" "length tx \<le> e" "?I e ps"
    by blast
  from r(3) have e: "e = length ps * capacity" "e \<le> length tx"
    by simp_all
  from e(2) r(2) have "e = length tx"
    by (rule antisym)
  with e(1) len have "length ps * capacity = k * capacity"
    by metis
  then have "length ps = k"
    using cap by simp
  with r show ?thesis
    by simp
qed

lemma page_capacity_ge_60: "60 \<le> page_capacity m"
proof -
  have "(20::int) * 3 \<le> max 20 (max 1 (viewport_width m) div max 1 (average_char_width m)) *
          max 3 (max 1 (viewport_height m) div max 1 (line_spacing m))"
    by (rule mult_mono) simp_all
  then show ?thesis
    by (simp add: page_capacity_def Let_def)
qed

subsection \<open>Capacity floors and termination\<close>

text \<open>
  Claim C4. For positive viewport metrics the estimated capacity is
  \<open>max(20, width div avg_char_w) * max(3, height div line_h)\<close>; it is at least 60, so
  strictly positive; with it the splitting loop returns for every text; and in every
  iteration the chosen split position is strictly beyond the current position.
\<close>

theorem capacity_positive_and_loop_terminates:
  assumes "0 < viewport_width m" and "0 < viewport_height m"
    and "0 < average_char_width m" and "0 < line_spacing m"
  shows "page_capacity m =
           max 20 (viewport_width m div average_char_width m) *
           max 3 (viewport_height m div line_spacing m)
         \<and> 60 \<le> page_capacity m \<and> 0 < page_capacity m
         \<and> (\<forall>text. \<exists>ps. split_loop (nat (page_capacity m)) text 0 [] = Some ps)
         \<and> (\<forall>text i. i < length text \<longrightarrow> i < split_pos_at (nat (page_capacity m)) text i)"
proof -
  have 1: "page_capacity m =
           max 20 (viewport_width m div average_char_width m) *
           max 3 (viewport_height m div line_spacing m)"
    using assms by (simp add: page_capacity_def Let_def max_def)
  have 60: "60 \<le> page_capacity m"
    by (rule page_capacity_ge_60)
  then have pos: "0 < nat (page_capacity m)"
    by simp
  have 2: "\<exists>ps. split_loop (nat (page_capacity m)) t 0 [] = Some ps" for t
    using pos by (rule split_loop_returns)
  have 3: "i < length t \<Longrightarrow> i < split_pos_at (nat (page_capacity m)) t i" for t i
    using pos by (rule split_pos_at_bounds)
  from 1 60 2 3 show ?thesis
    by simp
qed

theorem capacity_positive_and_loop_terminates_witness:
  "page_capacity \<lparr>viewport_width = 800, viewport_height = 600,
                  average_char_width = 8, line_spacing = 16\<rparr> = 3700
   \<and> (\<exists>ps. split_loop 3700 ''a b'' 0 [] = Some ps)
   \<and> 1 < split_pos_at 3700 ''a b'' 1"
proof -
  have "page_capacity \<lparr>viewport_width = 800, viewport_height = 600,
                  average_char_width = 8, line_spacing = 16\<rparr> = 3700"
    by (simp add: page_capacity_def)
  with capacity_positive_and_loop_terminates [of
      "\<lparr>viewport_width = 800, viewport_height = 600, average_char_width = 8, line_spacing = 16\<rparr>"]
  show ?thesis
    by simp
qed


subsection \<open>What showing a page changes\<close>

lemma pages_update_labels [simp]:
  "pages (update_page_and_progress_labels abspath st r) = pages st"
  by (simp add: update_page_and_progress_labels_def Let_def split: option.splits)

lemma index_update_labels [simp]:
  "current_page_index (update_page_and_progress_labels abspath st r) = current_page_index st"
  by (simp add: update_page_and_progress_labels_def Let_def split: option.splits)

lemma progress_update_labels:
  assumes "is_reading st" and "pages st \<noteq> []" and "current_book_path st = Some p" and "p \<noteq> []"
  shows "book_progress (update_page_and_progress_labels abspath st r) (abspath p) =
           Some (max 0 (min 1 r))"
  using assms by (simp add: update_page_and_progress_labels_def Let_def)

lemma pages_show_current_page [simp]:
  "pages (show_current_page abspath st) = pages st"
  by (simp add: show_current_page_def Let_def)

lemma index_show_current_page:
  "pages st \<noteq> [] \<Longrightarrow>
   current_page_index (show_current_page abspath st) =
     max 0 (min (current_page_index st) (int (length (pages st)) - 1))"
  by (simp add: show_current_page_def Let_def)

lemma progress_show_current_page:
  assumes "is_reading st" and "pages st \<noteq> []" and "current_book_path st = Some p" and "p \<noteq> []"
  shows "book_progress (show_current_page abspath st) (abspath p) =
           Some (max 0 (min 1
             (if length (pages st) = 1 then 0
              else int_truediv (max 0 (min (current_page_index st) (int (length (pages st)) - 1)))
                     (int (length (pages st)) - 1))))"
  using assms by (simp add: show_current_page_def Let_def progress_update_labels)

subsection \<open>What pagination returns\<close>

lemma paginate_current_text_empty:
  "\<not> truthy (current_full_text st) \<Longrightarrow>
   paginate_current_text abspath m st ratio =
     Some (show_current_page abspath (st\<lparr>pages := [[]], current_page_index := 0\<rparr>))"
  by (simp add: paginate_current_text_def)

lemma paginate_current_text_text:
  assumes "current_full_text st = Some t" and "t \<noteq> []"
    and "split_loop (nat (page_capacity m)) t 0 [] = Some ps"
  shows "paginate_current_text abspath m st ratio =
           Some (show_current_page abspath
             (st\<lparr>pages := ps,
                 current_page_index :=
                   (if length ps = 1 then 0
                    else py_round (fmul (max 0 (min 1 ratio)) (float_of_int (int (length ps) - 1))))\<rparr>))"
proof -
  have "0 < nat (page_capacity m)"
    using page_capacity_ge_60 [of m] by simp
  then have "ps \<noteq> []"
    using assms(2,3) by (rule split_loop_nonempty)
  then show ?thesis
    using assms by (simp add: paginate_current_text_def truthy_def Let_def)
qed

lemma paginate_current_text_cases:
  obtains (empty) "\<not> truthy (current_full_text st)"
      "paginate_current_text abspath m st ratio =
         Some (show_current_page abspath (st\<lparr>pages := [[]], current_page_index := 0\<rparr>))"
    | (nonempty) t ps where "current_full_text st = Some t" "t \<noteq> []"
      "split_loop (nat (page_capacity m)) t 0 [] = Some ps" "ps \<noteq> []"
      "paginate_current_text abspath m st ratio =
           Some (show_current_page abspath
             (st\<lparr>pages := ps,
                 current_page_index :=
                   (if length ps = 1 then 0
                    else py_round (fmul (max 0 (min 1 ratio)) (float_of_int (int (length ps) - 1))))\<rparr>))"
proof (cases "truthy (current_full_text st)")
  case False
  then show ?thesis
    using empty paginate_current_text_empty by blast
next
  case True
  then obtain t where t: "current_full_text st = Some t" "t \<noteq> []"
    by (auto simp: truthy_def split: option.splits)
  have pos: "0 < nat (page_capacity m)"
    using page_capacity_ge_60 [of m] by simp
  then obtain ps where ps: "split_loop (nat (page_capacity m)) t 0 [] = Some ps"
    using split_loop_returns by blast
  with pos t have "ps \<noteq> []"
    using split_loop_nonempty by blast
  with t ps show ?thesis
    using nonempty paginate_current_text_text by blast
qed

subsection \<open>Page size\<close>

text \<open>
  Claim C10. For every session state and all viewport metrics, pagination returns, and
  every page of the resulting page list has at most \<open>capacity\<close> characters, where
  \<open>capacity\<close> is the capacity computed from the metrics.
\<close>

theorem page_length_at_most_capacity:
  "\<exists>st'. paginate_current_text abspath m st ratio = Some st' \<and>
          (\<forall>p \<in> set (pages st'). int (length p) \<le> page_capacity m)"
proof (cases rule: paginate_current_text_cases [of st abspath m ratio])
  case empty
  then show ?thesis
    using page_capacity_ge_60 [of m] by simp
next
  case (nonempty t ps)
  have pos: "0 < nat (page_capacity m)"
    using page_capacity_ge_60 [of m] by simp
  have "\<forall>p \<in> set ps. length p \<le> nat (page_capacity m)"
    using pos
  proof (rule split_loop_pages [where Q = "\<lambda>p. length p \<le> nat (page_capacity m)"])
    show "split_loop (nat (page_capacity m)) t 0 [] = Some ps"
      by (rule nonempty(3))
    show "\<forall>p \<in> set []. length p \<le> nat (page_capacity m)"
      by simp
  next
    fix j
    assume j: "j < length t"
    let ?sp = "split_pos_at (nat (page_capacity m)) t j"
    have "length (strip (py_slice t j ?sp)) \<le> length (py_slice t j ?sp)"
      by (rule length_strip_le)
    also have "\<dots> \<le> ?sp - j"
      by (simp add: length_py_slice)
    also have "\<dots> \<le> nat (page_capacity m)"
      using split_pos_at_bounds(3) [OF pos j] by simp
    finally show "length (strip (py_slice t j ?sp)) \<le> nat (page_capacity m)" .
  qed
  then have "\<forall>p \<in> set ps. int (length p) \<le> page_capacity m"
    using page_capacity_ge_60 [of m] by auto
  with nonempty(5) show ?thesis
    by simp
qed


theorem page_length_at_most_capacity_witness:
  "\<exists>st'. paginate_current_text (\<lambda>p. p)
           \<lparr>viewport_width = 1, viewport_height = 1, average_char_width = 1, line_spacing = 1\<rparr>
           \<lparr>current_book_path = None, book_progress = (\<lambda>p. None), is_reading = True,
            current_full_text = Some ''hello world'', pages = [], current_page_index = 0,
            reader_edit = []\<rparr> 0 = Some st' \<and>
         pages st' = [''hello world''] \<and>
         (\<forall>p \<in> set (pages st'). int (length p) \<le> 60)"
proof -
  let ?m = "\<lparr>viewport_width = 1, viewport_height = 1, average_char_width = 1, line_spacing = 1\<rparr>"
  let ?st = "\<lparr>current_book_path = None, book_progress = (\<lambda>p. None), is_reading = True,
            current_full_text = Some ''hello world'', pages = [], current_page_index = 0,
            reader_edit = []\<rparr>"
  have c: "page_capacity ?m = 60"
    by (simp add: page_capacity_def)
  have l: "split_loop 60 ''hello world'' 0 [] = Some [''hello world'']"
    by code_simp
  have "paginate_current_text (\<lambda>p. p) ?m ?st 0 =
          Some (show_current_page (\<lambda>p. p) (?st\<lparr>pages := [''hello world''],
             current_page_index := (if length [''hello world''] = 1 then 0
               else py_round (fmul (max 0 (min 1 0))
                      (float_of_int (int (length [''hello world'']) - 1))))\<rparr>))"
    by (rule paginate_current_text_text [where t = "''hello world''"]) (simp_all add: c l)
  then show ?thesis
    using page_length_at_most_capacity [of "\<lambda>p. p" ?m ?st 0] c by auto
qed

subsection \<open>The page list is never empty\<close>

text \<open>
  Claim C5 as stated asks for non-empty page texts. A text with a long run of spaces
  between two words gives an empty page between them.
\<close>

theorem pages_nonempty_texts_counterexample:
  "map_option pages
     (paginate_current_text (\<lambda>p. p)
        \<lparr>viewport_width = 1, viewport_height = 1, average_char_width = 1, line_spacing = 1\<rparr>
        \<lparr>current_book_path = None, book_progress = (\<lambda>p. None), is_reading = True,
         current_full_text = Some (CHR ''a'' # replicate 130 CHR '' '' @ ''b''), pages = [],
         current_page_index = 0, reader_edit = []\<rparr> 0)
   = Some [''a'', [], ''b'']"
proof -
  let ?m = "\<lparr>viewport_width = 1, viewport_height = 1, average_char_width = 1, line_spacing = 1\<rparr>"
  let ?t = "CHR ''a'' # replicate 130 CHR '' '' @ ''b''"
  let ?st = "\<lparr>current_book_path = None, book_progress = (\<lambda>p. None), is_reading = True,
         current_full_text = Some ?t, pages = [],
         current_page_index = 0, reader_edit = []\<rparr>"
  have c: "page_capacity ?m = 60"
    by (simp add: page_capacity_def)
  have l: "split_loop 60 ?t 0 [] = Some [''a'', [], ''b'']"
    by code_simp
  have "paginate_current_text (\<lambda>p. p) ?m ?st 0 =
          Some (show_current_page (\<lambda>p. p) (?st\<lparr>pages := [''a'', [], ''b''],
             current_page_index := (if length [''a'', [], ''b''] = 1 then 0
               else py_round (fmul (max 0 (min 1 0))
                      (float_of_int (int (length [''a'', [], ''b'']) - 1))))\<rparr>))"
    by (rule paginate_current_text_text [where t = ?t]) (simp_all add: c l)
  then show ?thesis
    by simp
qed

text \<open>
  Claim C5, amended. Every page list produced by pagination, for every session state
  and all viewport metrics, has at least one page (a page may be the empty string),
  and an empty book (empty or absent full text) yields exactly one empty page.
\<close>

theorem page_list_at_least_one_page:
  "\<exists>st'. paginate_current_text abspath m st ratio = Some st' \<and>
          1 \<le> length (pages st') \<and>
          (current_full_text st = None \<or> current_full_text st = Some [] \<longrightarrow> pages st' = [[]])"
proof (cases rule: paginate_current_text_cases [of st abspath m ratio])
  case empty
  then show ?thesis
    by simp
next
  case (nonempty t ps)
  then show ?thesis
    by (cases ps) simp_all
qed

theorem page_list_at_least_one_page_witness:
  "\<exists>st'. paginate_current_text (\<lambda>p. p)
           \<lparr>viewport_width = 1, viewport_height = 1, average_char_width = 1, line_spacing = 1\<rparr>
           \<lparr>current_book_path = None, book_progress = (\<lambda>p. None), is_reading = True,
            current_full_text = Some [], pages = [''x'', ''y''], current_page_index = 1,
            reader_edit = ''y''\<rparr> 0 = Some st' \<and>
         pages st' = [[]]"
  using page_list_at_least_one_page [of "\<lambda>p. p"
      "\<lparr>viewport_width = 1, viewport_height = 1, average_char_width = 1, line_spacing = 1\<rparr>"
      "\<lparr>current_book_path = None, book_progress = (\<lambda>p. None), is_reading = True,
        current_full_text = Some [], pages = [''x'', ''y''], current_page_index = 1,
        reader_edit = ''y''\<rparr>" 0]
  by auto


subsection \<open>The loop against the algorithm of the specification\<close>

lemma nat_py_int: "nat (py_int x) = nat \<lfloor>x\<rfloor>"
proof (cases "0 \<le> x")
  case True
  then show ?thesis by (simp add: py_int_def)
next
  case False
  then have "\<lceil>x\<rceil> \<le> 0" and "\<lfloor>x\<rfloor> \<le> 0"
    by (simp_all add: ceiling_le_iff floor_le_iff)
  with False show ?thesis by (simp add: py_int_def)
qed

lemma sorted_Max_last:
  fixes xs :: "nat list"
  assumes "sorted xs" and "xs \<noteq> []"
  shows "Max (set xs) = last xs"
proof (rule Max_eqI)
  show "finite (set xs)"
    by simp
  show "last xs \<in> set xs"
    using assms(2) by simp
  fix y
  assume "y \<in> set xs"
  then obtain i where "i < length xs" "xs ! i = y"
    by (auto simp: in_set_conv_nth)
  with assms show "y \<le> last xs"
    by (auto simp: last_conv_nth intro!: sorted_nth_mono)
qed

lemma rfind_spec_last_space:
  assumes "e \<le> length s"
  shows "rfind s CHR '' '' (min (length s) a) e = spec_last_space s a e"
proof -
  let ?P = "\<lambda>j. s ! j = CHR '' ''"
  have r: "[min (length s) a ..< min e (length s)] = [a ..< e]"
    using assms by (cases "a < e") simp_all
  have f: "filter (\<lambda>j. j < length s \<and> ?P j) [a ..< e] = filter ?P [a ..< e]"
    using assms by (intro filter_cong) auto
  let ?xs = "filter ?P [a ..< e]"
  have s: "sorted ?xs"
    by (simp add: sorted_wrt_filter)
  show ?thesis
  proof (cases "?xs = []")
    case True
    then show ?thesis
      by (simp add: rfind_def spec_last_space_def r f rev_filter [symmetric] del: upt_eq_Nil_conv)
  next
    case False
    then obtain y ys where y: "rev ?xs = y # ys"
      by (cases "rev ?xs") auto
    then have "y = last ?xs"
      by (metis last_rev list.sel(1) hd_rev rev_rev_ident)
    with sorted_Max_last [OF s False] have "Max (set ?xs) = y"
      by (simp only:)
    with False y show ?thesis
      by (simp add: rfind_def spec_last_space_def r f rev_filter [symmetric] Let_def)
  qed
qed

lemma split_pos_at_spec: "split_pos_at capacity tx i = spec_split_pos capacity tx i"
proof -
  have "rfind tx CHR '' '' (min (length tx) (i + split_margin capacity)) (min (i + capacity) (length tx))
        = spec_last_space tx (i + split_margin capacity) (min (i + capacity) (length tx))"
    by (rule rfind_spec_last_space) simp
  then show ?thesis
    by (auto simp: split_pos_at_def spec_split_pos_def Let_def split_margin_def nat_py_int
        split: option.splits)
qed

lemma split_loop_spec_pages:
  assumes cap: "0 < capacity"
  shows "split_loop capacity tx 0 [] = Some (spec_pages capacity tx 0)"
proof -
  have "\<exists>ps k. split_loop capacity tx 0 [] = Some ps \<and> length tx \<le> k \<and>
          ps @ spec_pages capacity tx k = spec_pages capacity tx 0 \<and>
          (if 0 < length tx then length ([]::string list) < length ps else ps = [])"
    using cap
  proof (rule split_loop_rule [where I = "\<lambda>j acc. acc @ spec_pages capacity tx j = spec_pages capacity tx 0"])
    show "[] @ spec_pages capacity tx 0 = spec_pages capacity tx 0"
      by simp
  next
    fix j and acc :: "string list"
    assume a: "acc @ spec_pages capacity tx j = spec_pages capacity tx 0" and j: "j < length tx"
    have "spec_pages capacity tx j =
            strip (py_slice tx j (spec_split_pos capacity tx j))
              # spec_pages capacity tx (spec_split_pos capacity tx j)"
      using cap j by (subst spec_pages.simps) simp
    with a show "(acc @ [strip (py_slice tx j (split_pos_at capacity tx j))]) @
            spec_pages capacity tx (split_pos_at capacity tx j) = spec_pages capacity tx 0"
      by (simp add: split_pos_at_spec)
  qed
  then obtain ps k where r: "split_loop capacity tx 0 [] = Some ps" "length tx \<le> k"
      "ps @ spec_pages capacity tx k = spec_pages capacity tx 0"
    by blast
  from r(2) have "spec_pages capacity tx k = []"
    by (subst spec_pages.simps) simp
  with r show ?thesis
    by simp
qed

text \<open>A text without the space character is cut at multiples of the capacity.\<close>

lemma split_pos_at_no_blank:
  assumes "CHR '' '' \<notin> set tx"
  shows "split_pos_at capacity tx j = min (j + capacity) (length tx)"
proof -
  from assms have "\<forall>k < length tx. tx ! k \<noteq> CHR '' ''"
    by (metis nth_mem)
  then have "rfind tx CHR '' '' a b = None" for a b
    by (simp add: rfind_None_iff)
  then show ?thesis
    by (simp add: split_pos_at_def Let_def)
qed

lemma split_loop_no_blank:
  assumes cap: "0 < capacity" and nb: "CHR '' '' \<notin> set tx"
    and len: "length tx = k * capacity"
  shows "split_loop capacity tx 0 [] =
           Some (map (\<lambda>q. strip (py_slice tx (q * capacity) (Suc q * capacity))) [0 ..< k])"
proof -
  let ?f = "\<lambda>q. strip (py_slice tx (q * capacity) (Suc q * capacity))"
  have "\<exists>ps e. split_loop capacity tx 0 [] = Some ps \<and> length tx \<le> e \<and>
          (\<exists>q. e = q * capacity \<and> q \<le> k \<and> ps = map ?f [0 ..< q]) \<and>
          (if 0 < length tx then length ([]::string list) < length ps else ps = [])"
    using cap
  proof (rule split_loop_rule [where I = "\<lambda>j acc. \<exists>q. j = q * capacity \<and> q \<le> k \<and>
        acc = map (\<lambda>q. strip (py_slice tx (q * capacity) (Suc q * capacity))) [0 ..< q]"])
    show "\<exists>q. 0 = q * capacity \<and> q \<le> k \<and> [] = map ?f [0 ..< q]"
      by (intro exI [of _ 0]) simp
  next
    fix j and acc :: "string list"
    assume "\<exists>q. j = q * capacity \<and> q \<le> k \<and> acc = map ?f [0 ..< q]" and j: "j < length tx"
    then obtain q where q: "j = q * capacity" "q \<le> k" "acc = map ?f [0 ..< q]"
      by blast
    from q(1) j len have "q < k"
      using cap by simp
    then have "Suc q * capacity \<le> k * capacity"
      by (intro mult_le_mono1) simp
    with q(1) len have "split_pos_at capacity tx j = Suc q * capacity"
      using split_pos_at_no_blank [OF nb, of capacity j] by simp
    with q \<open>q < k\<close>
    show "\<exists>q'. split_pos_at capacity tx j = q' * capacity \<and> q' \<le> k \<and>
            acc @ [strip (py_slice tx j (split_pos_at capacity tx j))] = map ?f [0 ..< q']"
      by (intro exI [of _ "Suc q"]) simp
  qed
  then obtain ps e q where r: "split_loop capacity tx 0 [] = Some ps" "length tx \<le> e"
      "e = q * capacity" "q \<le> k" "ps = map ?f [0 ..< q]"
    by blast
  from r(2,3) len have "k * capacity \<le> q * capacity"
    by simp
  then have "k \<le> q"
    using cap by simp
  with r show ?thesis
    by simp
qed

text \<open>
  Claim C3 as stated gives pages of exactly 100 characters for every 1000-character text
  without spaces at capacity 100. A text of 1000 line feeds holds no space character, and
  each of its ten pages is trimmed to the empty string.
\<close>

theorem no_space_pages_counterexample:
  "length (replicate 1000 (CHR 0x0A)) = 1000 \<and>
   CHR '' '' \<notin> set (replicate 1000 (CHR 0x0A)) \<and>
   split_loop 100 (replicate 1000 (CHR 0x0A)) 0 [] = Some (replicate 10 [])"
proof -
  let ?t = "replicate 1000 (CHR 0x0A)"
  have nb: "CHR '' '' \<notin> set ?t"
    by simp
  have sp: "is_space (CHR 0x0A)"
    by (simp add: is_space_def)
  have st: "strip (replicate n (CHR 0x0A)) = []" for n
    using sp by (simp add: strip_def)
  have "split_loop 100 ?t 0 [] =
          Some (map (\<lambda>q. strip (py_slice ?t (q * 100) (Suc q * 100))) [0 ..< 10])"
    using nb by (intro split_loop_no_blank) simp_all
  also have "map (\<lambda>q. strip (py_slice ?t (q * 100) (Suc q * 100))) [0 ..< 10] =
          map (\<lambda>q. []) [0 ..< 10]"
    by (intro map_cong refl) (simp only: py_slice_def drop_replicate take_replicate st)
  also have "map (\<lambda>q. []) [0 ..< 10] = replicate 10 ([]::string)"
    by (simp only: map_replicate_const length_upt) simp
  finally show ?thesis
    using nb by simp
qed

text \<open>
  Claim C3, amended. For every text and every capacity \<open>> 0\<close> the loop returns the pages
  of the algorithm as the specification words it: from \<open>i = 0\<close>, while \<open>i < length\<close>,
  \<open>end = min(i + capacity, length)\<close>, the cut is at the last space within
  \<open>[i + floor(capacity * 0.8), end)\<close> when that is \<open>> i\<close> and at \<open>end\<close> otherwise, the page is
  \<open>trim(text[i:splitPos])\<close> and \<open>i\<close> advances to \<open>splitPos\<close>. For a 1000-character text
  without any whitespace character and capacity 100 there are ten pages, each of
  exactly 100 characters.
\<close>

theorem splitting_algorithm:
  "(0 < capacity \<longrightarrow> split_loop capacity tx 0 [] = Some (spec_pages capacity tx 0)) \<and>
   (length tx = 1000 \<and> (\<forall>c \<in> set tx. \<not> is_space c) \<longrightarrow>
      (\<exists>ps. split_loop 100 tx 0 [] = Some ps \<and> length ps = 10 \<and>
            (\<forall>p \<in> set ps. length p = 100)))"
proof (intro conjI impI)
  assume "0 < capacity"
  then show "split_loop capacity tx 0 [] = Some (spec_pages capacity tx 0)"
    by (rule split_loop_spec_pages)
next
  assume a: "length tx = 1000 \<and> (\<forall>c \<in> set tx. \<not> is_space c)"
  then have "length tx = 10 * 100"
    by simp
  with a show "\<exists>ps. split_loop 100 tx 0 [] = Some ps \<and> length ps = 10 \<and>
            (\<forall>p \<in> set ps. length p = 100)"
    by (intro split_loop_no_space) simp_all
qed

theorem splitting_algorithm_witness:
  "split_loop 100 (replicate 1000 CHR ''a'') 0 [] =
     Some (spec_pages 100 (replicate 1000 CHR ''a'') 0) \<and>
   (\<exists>ps. split_loop 100 (replicate 1000 CHR ''a'') 0 [] = Some ps \<and> length ps = 10 \<and>
         (\<forall>p \<in> set ps. length p = 100))"
proof -
  have 1: "length (replicate 1000 CHR ''a'') = 1000"
    by (simp only: length_replicate)
  have 2: "\<forall>c \<in> set (replicate 1000 CHR ''a''). \<not> is_space c"
    by (simp add: is_space_def)
  have 3: "(0::nat) < 100"
    by simp
  from splitting_algorithm [of 100 "replicate 1000 CHR ''a''"] 1 2 3 show ?thesis
    by blast
qed



subsection \<open>Bounds of the float operations\<close>

lemma pow2_pos: "0 < pow2 e"
  by (simp add: pow2_def)

lemma py_round_nonneg: "0 \<le> x \<Longrightarrow> 0 \<le> py_round x"
proof -
  assume "0 \<le> x"
  then have "0 \<le> \<lfloor>x\<rfloor>"
    by simp
  then show ?thesis
    by (simp add: py_round_def Let_def)
qed

lemma py_round_le_int:
  assumes "x \<le> of_int N"
  shows "py_round x \<le> N"
proof (cases "\<lfloor>x\<rfloor> = N")
  case True
  then have "of_int N \<le> x"
    by (metis of_int_floor_le)
  with assms have "x = of_int N"
    by simp
  then show ?thesis
    by (simp add: py_round_def)
next
  case False
  from assms have "\<lfloor>x\<rfloor> \<le> N"
    by (simp add: floor_le_iff)
  with False have "\<lfloor>x\<rfloor> + 1 \<le> N"
    by simp
  then show ?thesis
    by (simp add: py_round_def Let_def)
qed

lemma fl_nonneg: "0 \<le> x \<Longrightarrow> 0 \<le> fl x"
  using pow2_pos by (simp add: fl_def Let_def py_round_nonneg less_imp_le)

lemma ilog2_le_0:
  assumes "0 < x" and "x \<le> 1"
  shows "ilog2 x \<le> 0"
proof -
  obtain p q where pq: "quotient_of x = (p, q)"
    by (cases "quotient_of x")
  then have q: "0 < q" and x: "x = of_int p / of_int q"
    by (simp_all add: quotient_of_denom_pos quotient_of_div)
  from x q assms(2) have "p \<le> q"
    by (simp add: divide_le_eq_1)
  then have "bitlen p \<le> bitlen q"
    by (simp add: bitlen_def floorlog_mono)
  with pq show ?thesis
    by (simp add: ilog2_def Let_def)
qed

lemma fl_le_1:
  assumes "x \<le> 1"
  shows "fl x \<le> 1"
proof (cases "0 < x")
  case False
  define s where "s = max (ilog2 \<bar>x\<bar> - 52) (- 1074)"
  from False have "x / pow2 s \<le> of_int 0"
    using pow2_pos [of s] by (simp add: divide_le_0_iff less_imp_le)
  then have "py_round (x / pow2 s) \<le> 0"
    by (rule py_round_le_int)
  then have "of_int (py_round (x / pow2 s)) * pow2 s \<le> 0"
    using pow2_pos [of s] by (simp add: mult_le_0_iff less_imp_le)
  then show ?thesis
    by (simp add: fl_def Let_def s_def)
next
  case True
  define s where "s = max (ilog2 \<bar>x\<bar> - 52) (- 1074)"
  from True assms have "ilog2 \<bar>x\<bar> \<le> 0"
    by (simp add: ilog2_le_0)
  then have s: "s \<le> 0"
    by (simp add: s_def)
  define N :: int where "N = 2 ^ nat (- s)"
  have p: "pow2 s = 1 / of_int N"
    using s by (cases "s = 0") (simp_all add: pow2_def N_def)
  have Npos: "0 < N"
    by (simp add: N_def)
  have "x / pow2 s = x * of_int N"
    by (simp add: p)
  also have "\<dots> \<le> of_int N"
    using assms Npos by (simp add: mult_le_cancel_right1)
  finally have "py_round (x / pow2 s) \<le> N"
    by (rule py_round_le_int)
  then have "(of_int (py_round (x / pow2 s)) :: rat) \<le> of_int N"
    by simp
  then have "of_int (py_round (x / pow2 s)) * pow2 s \<le> 1"
    using Npos by (simp add: p divide_le_eq)
  with True show ?thesis
    by (simp add: fl_def Let_def s_def)
qed

lemma int_truediv_unit:
  assumes "0 \<le> a" and "a \<le> b" and "0 < b"
  shows "0 \<le> int_truediv a b" and "int_truediv a b \<le> 1"
proof -
  have "(0::rat) \<le> of_int a / of_int b"
    using assms by simp
  then show "0 \<le> int_truediv a b"
    by (simp add: int_truediv_def fl_nonneg)
  have "(of_int a :: rat) / of_int b \<le> 1"
    using assms by (simp add: divide_le_eq_1)
  then show "int_truediv a b \<le> 1"
    by (simp add: int_truediv_def fl_le_1)
qed

subsection \<open>From ratio to page index\<close>

lemma progress_show_current_page_exact:
  assumes "is_reading st" and "pages st \<noteq> []" and "current_book_path st = Some p" and "p \<noteq> []"
  shows "book_progress (show_current_page abspath st) (abspath p) =
           Some (if length (pages st) = 1 then 0
                 else int_truediv (max 0 (min (current_page_index st) (int (length (pages st)) - 1)))
                        (int (length (pages st)) - 1))"
proof (cases "length (pages st) = 1")
  case True
  with assms show ?thesis
    by (simp add: progress_show_current_page)
next
  case False
  have "length (pages st) \<noteq> 0"
    using assms(2) by simp
  with False have "1 < length (pages st)"
    by arith
  then have n: "0 < int (length (pages st)) - 1"
    by simp
  let ?i = "max 0 (min (current_page_index st) (int (length (pages st)) - 1))"
  have "0 \<le> ?i" and "?i \<le> int (length (pages st)) - 1"
    using n by linarith+
  then have "0 \<le> int_truediv ?i (int (length (pages st)) - 1)"
    and "int_truediv ?i (int (length (pages st)) - 1) \<le> 1"
    using n by (simp_all add: int_truediv_unit)
  with False assms show ?thesis
    by (simp add: progress_show_current_page)
qed

lemma paginate_ignores_index:
  "paginate_current_text abspath m (st\<lparr>current_page_index := k\<rparr>) ratio =
   paginate_current_text abspath m st ratio"
  by (simp add: paginate_current_text_def Let_def split: option.splits)

lemma is_reading_show_current_page [simp]:
  "is_reading (show_current_page abspath st) = is_reading st"
  by (simp add: show_current_page_def update_page_and_progress_labels_def Let_def
      split: option.splits)

text \<open>
  Claim C2 as stated rounds ties half-up, so that ratio 0.5 on a 10-page set gives index
  5. The source calls Python's \<open>round\<close>, which rounds ties to the even integer: a
  600-character text at capacity 60 is a 10-page set, and ratio 0.5 gives index
  \<open>round(4.5) = 4\<close>, where rounding half-up gives 5.
\<close>

theorem ratio_index_half_up_counterexample:
  "map_option (\<lambda>s. (length (pages s), current_page_index s))
     (paginate_current_text (\<lambda>p. p)
        \<lparr>viewport_width = 1, viewport_height = 1, average_char_width = 1, line_spacing = 1\<rparr>
        \<lparr>current_book_path = None, book_progress = (\<lambda>p. None), is_reading = True,
         current_full_text = Some (replicate 600 CHR ''a''), pages = [],
         current_page_index = 0, reader_edit = []\<rparr> (1 / 2))
     = Some (10, 4) \<and>
   round ((1 / 2 :: rat) * (10 - 1)) = 5"
proof -
  let ?m = "\<lparr>viewport_width = 1, viewport_height = 1, average_char_width = 1, line_spacing = 1\<rparr>"
  let ?t = "replicate 600 CHR ''a''"
  let ?st = "\<lparr>current_book_path = None, book_progress = (\<lambda>p. None), is_reading = True,
         current_full_text = Some ?t, pages = [],
         current_page_index = 0, reader_edit = []\<rparr>"
  have c: "page_capacity ?m = 60"
    by (simp add: page_capacity_def)
  have "\<exists>ps. split_loop 60 ?t 0 [] = Some ps \<and> length ps = 10 \<and> (\<forall>p \<in> set ps. length p = 60)"
    by (rule split_loop_no_space) (simp_all add: is_space_def)
  then obtain ps where ps: "split_loop 60 ?t 0 [] = Some ps" "length ps = 10"
    by blast
  have r: "py_round (fmul (max 0 (min 1 (1 / 2))) (float_of_int (int 10 - 1))) = 4"
    by code_simp
  have t: "?t \<noteq> []"
    by simp
  have "paginate_current_text (\<lambda>p. p) ?m ?st (1 / 2) =
          Some (show_current_page (\<lambda>p. p) (?st\<lparr>pages := ps,
             current_page_index := (if length ps = 1 then 0
               else py_round (fmul (max 0 (min 1 (1 / 2)))
                      (float_of_int (int (length ps) - 1))))\<rparr>))"
  proof (rule paginate_current_text_text [where t = ?t])
    show "current_full_text ?st = Some ?t"
      by simp
    show "?t \<noteq> []"
      by (rule t)
    show "split_loop (nat (page_capacity ?m)) ?t 0 [] = Some ps"
      using ps(1) by (simp add: c)
  qed
  moreover have "ps \<noteq> []"
    using ps(2) by auto
  ultimately have "map_option (\<lambda>s. (length (pages s), current_page_index s))
     (paginate_current_text (\<lambda>p. p) ?m ?st (1 / 2)) = Some (10, 4)"
    using ps(2) r by (simp add: index_show_current_page del: of_nat_numeral)
  moreover have "round ((1 / 2 :: rat) * (10 - 1)) = 5"
    by (simp add: round_def)
  ultimately show ?thesis
    by simp
qed

text \<open>
  Claim C2, amended. After pagination with ratio \<open>r\<close>: for more than one page the index
  is \<open>round(r' * (pageCount - 1))\<close> with \<open>r'\<close> the ratio clamped into \<open>[0, 1]\<close>, the float
  product, ties rounded to the even integer, the result clamped to \<open>[0, pageCount - 1]\<close>
  (ratio 0.5 gives index 4 on a 10-page set and index 10 on a 20-page set); for one
  page the index is 0 and the ratio stored for the book is 0; the result does not
  depend on the page index before pagination, and \<open>on_reader_resized\<close> paginates with the
  ratio stored for the book.
\<close>

theorem ratio_to_index_half_even:
  assumes "paginate_current_text abspath m st ratio = Some st'"
  shows "(1 < length (pages st') \<longrightarrow>
            current_page_index st' =
              max 0 (min (py_round (fmul (max 0 (min 1 ratio))
                                     (float_of_int (int (length (pages st')) - 1))))
                         (int (length (pages st')) - 1)))
       \<and> (length (pages st') = 1 \<longrightarrow>
            current_page_index st' = 0 \<and>
            (is_reading st \<and> current_book_path st = Some p \<and> p \<noteq> [] \<longrightarrow>
               book_progress st' (abspath p) = Some 0))
       \<and> py_round (fmul (1 / 2) (float_of_int (10 - 1))) = 4
       \<and> py_round (fmul (1 / 2) (float_of_int (20 - 1))) = 10
       \<and> paginate_current_text abspath m (st\<lparr>current_page_index := k\<rparr>) ratio = Some st'
       \<and> (is_reading st \<and> truthy (current_full_text st) \<and>
            current_book_path st = Some p \<and> p \<noteq> [] \<longrightarrow>
            on_reader_resized abspath m st =
              paginate_current_text abspath m st
                (case book_progress st (abspath p) of Some r \<Rightarrow> r | None \<Rightarrow> 0))"
proof -
  have ex: "py_round (fmul (1 / 2) (float_of_int (10 - 1))) = 4"
    "py_round (fmul (1 / 2) (float_of_int (20 - 1))) = 10"
    by code_simp+
  have rs: "is_reading st \<and> truthy (current_full_text st) \<and>
            current_book_path st = Some p \<and> p \<noteq> [] \<longrightarrow>
            on_reader_resized abspath m st =
              paginate_current_text abspath m st
                (case book_progress st (abspath p) of Some r \<Rightarrow> r | None \<Rightarrow> 0)"
    by (simp add: on_reader_resized_def truthy_def Let_def)
  have ig: "paginate_current_text abspath m (st\<lparr>current_page_index := k\<rparr>) ratio = Some st'"
    using assms by (simp add: paginate_ignores_index)
  show ?thesis
  proof (cases rule: paginate_current_text_cases [of st abspath m ratio])
    case empty
    with assms have st': "st' = show_current_page abspath (st\<lparr>pages := [[]], current_page_index := 0\<rparr>)"
      by simp
    have "current_page_index st' = 0"
      by (simp add: st' index_show_current_page)
    moreover have "is_reading st \<and> current_book_path st = Some p \<and> p \<noteq> [] \<longrightarrow>
               book_progress st' (abspath p) = Some 0"
      by (simp add: st' progress_show_current_page_exact)
    moreover have "length (pages st') = 1"
      by (simp add: st')
    ultimately show ?thesis
      using ex rs ig by simp
  next
    case (nonempty t ps)
    let ?i = "if length ps = 1 then 0
              else py_round (fmul (max 0 (min 1 ratio)) (float_of_int (int (length ps) - 1)))"
    from nonempty(5) assms
    have st': "st' = show_current_page abspath (st\<lparr>pages := ps, current_page_index := ?i\<rparr>)"
      by simp
    have pg: "pages st' = ps"
      by (simp add: st')
    have ix: "current_page_index st' = max 0 (min ?i (int (length ps) - 1))"
      using nonempty(4) by (simp add: st' index_show_current_page)
    have pr: "length ps = 1 \<Longrightarrow> is_reading st \<and> current_book_path st = Some p \<and> p \<noteq> [] \<longrightarrow>
               book_progress st' (abspath p) = Some 0"
      using nonempty(4) by (simp add: st' progress_show_current_page_exact)
    show ?thesis
      using ex rs ig pg ix pr by (cases "length ps = 1") simp_all
  qed
qed

theorem ratio_to_index_half_even_witness:
  "\<exists>st'. paginate_current_text (\<lambda>p. p)
           \<lparr>viewport_width = 1, viewport_height = 1, average_char_width = 1, line_spacing = 1\<rparr>
           \<lparr>current_book_path = Some ''/b.fb2'', book_progress = (\<lambda>p. None), is_reading = True,
            current_full_text = Some (replicate 120 CHR ''a''), pages = [],
            current_page_index = 0, reader_edit = []\<rparr> (1 / 2) = Some st' \<and>
         length (pages st') = 2 \<and> current_page_index st' = 0"
proof -
  let ?m = "\<lparr>viewport_width = 1, viewport_height = 1, average_char_width = 1, line_spacing = 1\<rparr>"
  let ?t = "replicate 120 CHR ''a''"
  let ?st = "\<lparr>current_book_path = Some ''/b.fb2'', book_progress = (\<lambda>p. None), is_reading = True,
            current_full_text = Some ?t, pages = [],
            current_page_index = 0, reader_edit = []\<rparr>"
  have c: "page_capacity ?m = 60"
    by (simp add: page_capacity_def)
  have "\<exists>ps. split_loop 60 ?t 0 [] = Some ps \<and> length ps = 2 \<and> (\<forall>p \<in> set ps. length p = 60)"
    by (rule split_loop_no_space) (simp_all add: is_space_def)
  then obtain ps where ps: "split_loop 60 ?t 0 [] = Some ps" "length ps = 2"
    by blast
  let ?st' = "show_current_page (\<lambda>p. p) (?st\<lparr>pages := ps,
             current_page_index := (if length ps = 1 then 0
               else py_round (fmul (max 0 (min 1 (1 / 2)))
                      (float_of_int (int (length ps) - 1))))\<rparr>)"
  have eq: "paginate_current_text (\<lambda>p. p) ?m ?st (1 / 2) = Some ?st'"
  proof (rule paginate_current_text_text [where t = ?t])
    show "current_full_text ?st = Some ?t"
      by simp
    show "?t \<noteq> []"
      by simp
    show "split_loop (nat (page_capacity ?m)) ?t 0 [] = Some ps"
      using ps(1) by (simp add: c)
  qed
  have l: "length (pages ?st') = 2"
    by (simp add: ps)
  then have "1 < length (pages ?st')"
    by simp
  with ratio_to_index_half_even [OF eq] have "current_page_index ?st' =
     max 0 (min (py_round (fmul (max 0 (min 1 (1 / 2)))
                                     (float_of_int (int (length (pages ?st')) - 1))))
                         (int (length (pages ?st')) - 1))"
    by blast
  moreover have "py_round (fmul (max 0 (min 1 (1 / 2))) (float_of_int (int 2 - 1))) = 0"
    by code_simp
  ultimately have "current_page_index ?st' = 0"
    by (simp only: l)
  with eq l show ?thesis
    by blast
qed


subsection \<open>Page navigation\<close>

lemma go_to_page_reading:
  assumes "is_reading st" and "pages st \<noteq> []"
  shows "go_to_page abspath st k =
           show_current_page abspath
             (st\<lparr>current_page_index := max 0 (min k (int (length (pages st)) - 1))\<rparr>)"
  using assms by (simp add: go_to_page_def Let_def)

lemma go_to_page_index:
  assumes "is_reading st" and "pages st \<noteq> []"
  shows "current_page_index (go_to_page abspath st k) = max 0 (min k (int (length (pages st)) - 1))"
proof -
  have "0 < int (length (pages st))"
    using assms(2) by simp
  then show ?thesis
    using assms by (simp add: go_to_page_reading index_show_current_page)
qed

lemma go_to_page_pages [simp]: "pages (go_to_page abspath st k) = pages st"
  by (simp add: go_to_page_def Let_def)

text \<open>
  Claim C8. In a reading session with a page list, \<open>go_to_page\<close> sets the index to the
  requested one clamped into \<open>[0, pageCount - 1]\<close>, keeps the pages, and stores for the
  book the ratio \<open>index / (pageCount - 1)\<close> (0 for a single page); \<open>go_next_page\<close> and
  \<open>go_prev_page\<close> are \<open>go_to_page\<close> of the current index plus and minus one and leave
  index and pages unchanged at the last and first page; pagination accepts every
  ratio and returns an index within the page list.
\<close>

theorem page_navigation_clamps:
  "(is_reading st \<and> pages st \<noteq> [] \<longrightarrow>
      current_page_index (go_to_page abspath st k) = max 0 (min k (int (length (pages st)) - 1))
    \<and> pages (go_to_page abspath st k) = pages st
    \<and> (current_book_path st = Some p \<and> p \<noteq> [] \<longrightarrow>
         book_progress (go_to_page abspath st k) (abspath p) =
           Some (if length (pages st) = 1 then 0
                 else int_truediv (max 0 (min k (int (length (pages st)) - 1)))
                        (int (length (pages st)) - 1)))
    \<and> (current_page_index st = int (length (pages st)) - 1 \<longrightarrow>
         current_page_index (go_next_page abspath st) = current_page_index st \<and>
         pages (go_next_page abspath st) = pages st)
    \<and> (current_page_index st = 0 \<longrightarrow>
         current_page_index (go_prev_page abspath st) = current_page_index st \<and>
         pages (go_prev_page abspath st) = pages st))
   \<and> go_next_page abspath st = go_to_page abspath st (current_page_index st + 1)
   \<and> go_prev_page abspath st = go_to_page abspath st (current_page_index st - 1)
   \<and> (\<exists>st'. paginate_current_text abspath m st ratio = Some st' \<and>
            0 \<le> current_page_index st' \<and> current_page_index st' < int (length (pages st')))"
proof -
  have nx: "go_next_page abspath st = go_to_page abspath st (current_page_index st + 1)"
    by (simp add: go_next_page_def go_to_page_def)
  have pv: "go_prev_page abspath st = go_to_page abspath st (current_page_index st - 1)"
    by (simp add: go_prev_page_def go_to_page_def)
  have pg: "\<exists>st'. paginate_current_text abspath m st ratio = Some st' \<and>
            0 \<le> current_page_index st' \<and> current_page_index st' < int (length (pages st'))"
  proof (cases rule: paginate_current_text_cases [of st abspath m ratio])
    case empty
    then show ?thesis
      by (simp add: index_show_current_page)
  next
    case (nonempty t ps)
    from nonempty(4) have "0 < int (length ps)"
      by simp
    with nonempty show ?thesis
      by (simp add: index_show_current_page)
  qed
  have rd: "current_page_index (go_to_page abspath st k) = max 0 (min k (int (length (pages st)) - 1))
    \<and> pages (go_to_page abspath st k) = pages st
    \<and> (current_book_path st = Some p \<and> p \<noteq> [] \<longrightarrow>
         book_progress (go_to_page abspath st k) (abspath p) =
           Some (if length (pages st) = 1 then 0
                 else int_truediv (max 0 (min k (int (length (pages st)) - 1)))
                        (int (length (pages st)) - 1)))
    \<and> (current_page_index st = int (length (pages st)) - 1 \<longrightarrow>
         current_page_index (go_next_page abspath st) = current_page_index st \<and>
         pages (go_next_page abspath st) = pages st)
    \<and> (current_page_index st = 0 \<longrightarrow>
         current_page_index (go_prev_page abspath st) = current_page_index st \<and>
         pages (go_prev_page abspath st) = pages st)"
    if r: "is_reading st" "pages st \<noteq> []"
  proof -
    have n: "0 < int (length (pages st))"
      using r(2) by simp
    let ?c = "max 0 (min k (int (length (pages st)) - 1))"
    have c: "0 \<le> ?c" "?c \<le> int (length (pages st)) - 1"
      using n by linarith+
    have 1: "current_page_index (go_to_page abspath st k) = ?c"
      using r by (rule go_to_page_index)
    have 2: "book_progress (go_to_page abspath st k) (abspath p) =
           Some (if length (pages st) = 1 then 0
                 else int_truediv ?c (int (length (pages st)) - 1))"
      if "current_book_path st = Some p" "p \<noteq> []"
    proof -
      have "max 0 (min ?c (int (length (pages st)) - 1)) = ?c"
        using c by linarith
      then show ?thesis
        using r that
        by (simp only: go_to_page_reading [OF r])
          (simp add: progress_show_current_page_exact del: max.absorb1 max.absorb2 min.absorb1 min.absorb2)
    qed
    have 3: "current_page_index (go_next_page abspath st) = current_page_index st"
      if "current_page_index st = int (length (pages st)) - 1"
      using that n by (simp add: nx go_to_page_index [OF r])
    have 4: "current_page_index (go_prev_page abspath st) = current_page_index st"
      if "current_page_index st = 0"
      using that n by (simp add: pv go_to_page_index [OF r])
    from 1 2 3 4 show ?thesis
      by (simp add: nx pv)
  qed
  from nx pv pg rd show ?thesis
    by blast
qed

theorem page_navigation_clamps_witness:
  "current_page_index
     (go_to_page (\<lambda>p. p)
        \<lparr>current_book_path = Some ''/b.fb2'', book_progress = (\<lambda>p. None), is_reading = True,
         current_full_text = Some ''one two three'', pages = [''one'', ''two'', ''three''],
         current_page_index = 0, reader_edit = ''one''\<rparr> 7) = 2 \<and>
   book_progress
     (go_to_page (\<lambda>p. p)
        \<lparr>current_book_path = Some ''/b.fb2'', book_progress = (\<lambda>p. None), is_reading = True,
         current_full_text = Some ''one two three'', pages = [''one'', ''two'', ''three''],
         current_page_index = 0, reader_edit = ''one''\<rparr> 7) ''/b.fb2'' = Some (int_truediv 2 2) \<and>
   current_page_index
     (go_prev_page (\<lambda>p. p)
        \<lparr>current_book_path = Some ''/b.fb2'', book_progress = (\<lambda>p. None), is_reading = True,
         current_full_text = Some ''one two three'', pages = [''one'', ''two'', ''three''],
         current_page_index = 0, reader_edit = ''one''\<rparr>) = 0"
  using page_navigation_clamps [of
      "\<lparr>current_book_path = Some ''/b.fb2'', book_progress = (\<lambda>p. None), is_reading = True,
         current_full_text = Some ''one two three'', pages = [''one'', ''two'', ''three''],
         current_page_index = 0, reader_edit = ''one''\<rparr>" "\<lambda>p. p" 7 "''/b.fb2''"
      "\<lparr>viewport_width = 1, viewport_height = 1, average_char_width = 1, line_spacing = 1\<rparr>" 0]
  by auto


section \<open>Properties of the FB2 parser\<close>

subsection \<open>The sections of the parser, field by field\<close>

lemma binary_loop_keeps:
  "title (binary_loop b cid es info) = title info"
  "full_text (binary_loop b cid es info) = full_text info"
  by (induction es) (simp_all add: Let_def split: sum.splits)

lemma title_stages [simp]:
  "title (parse_authors ti info) = title info"
  "title (parse_genres ti info) = title info"
  "title (parse_lang ti info) = title info"
  "title (parse_publisher_date pinfo ti info) = title info"
  "title (parse_annotation ti info) = title info"
  "title (parse_cover b root_el ti info) = title info"
  "title (parse_body root_el info) = title info"
  by (simp_all add: parse_authors_def parse_genres_def parse_lang_def parse_publisher_date_def
      parse_annotation_def parse_cover_def parse_body_def binary_loop_keeps Let_def
      split: option.splits)

lemma cover_stages [simp]:
  "cover_bytes (parse_title path ti info) = cover_bytes info"
  "cover_bytes (parse_authors ti info) = cover_bytes info"
  "cover_bytes (parse_genres ti info) = cover_bytes info"
  "cover_bytes (parse_lang ti info) = cover_bytes info"
  "cover_bytes (parse_publisher_date pinfo ti info) = cover_bytes info"
  "cover_bytes (parse_annotation ti info) = cover_bytes info"
  "cover_bytes (parse_body root_el info) = cover_bytes info"
  by (simp_all add: parse_title_def parse_authors_def parse_genres_def parse_lang_def
      parse_publisher_date_def parse_annotation_def parse_body_def Let_def
      split: option.splits)

lemma lookup_title_info:
  "lookup_path root_el (''description'' # ''title-info'' # ns) =
     (case title_info_of root_el of None \<Rightarrow> None | Some ti \<Rightarrow> lookup_path ti ns)"
  by (simp split: option.splits)

lemma title_parse_title:
  assumes "title info = None"
  shows "title (parse_title path (title_info_of root_el) info) =
           Some (case lookup_path root_el [''description'', ''title-info'', ''book-title''] of
                   None \<Rightarrow> splitext_root (basename path)
                 | Some book_title \<Rightarrow>
                     if strip (elem_text (Some book_title)) \<noteq> []
                     then strip (elem_text (Some book_title))
                     else splitext_root (basename path))"
  using assms
  by (simp add: parse_title_def truthy_def Let_def lookup_title_info split: option.splits)

lemma paragraphs_loop_eq:
  "paragraphs_loop es acc =
     acc @ filter (\<lambda>t. t \<noteq> [])
             (map (\<lambda>p. strip (elem_text (Some p))) (filter (\<lambda>e. local_name (tag e) = ''p'') es))"
  by (induction es arbitrary: acc) (simp_all add: Let_def)

lemma body_loop_eq:
  "body_loop bs acc =
     acc @ filter (\<lambda>t. t \<noteq> [])
             (map (\<lambda>p. strip (elem_text (Some p)))
                (filter (\<lambda>e. local_name (tag e) = ''p'')
                   (concat (map iter (filter (\<lambda>b. local_name (tag b) = ''body'') bs)))))"
  by (induction bs arbitrary: acc) (simp_all add: paragraphs_loop_eq)

lemma full_text_parse_body: "full_text (parse_body root_el info) = spec_full_text root_el"
  by (simp add: parse_body_def spec_full_text_def body_paragraphs_def body_loop_eq Let_def)

lemma binary_loop_find:
  assumes "cover_bytes info = None"
  shows "cover_bytes (binary_loop b64decode cid es info) =
           (case find (\<lambda>e. local_name (tag e) = ''binary'' \<and> map_of (attrib e) ''id'' = Some cid) es of
              None \<Rightarrow> None
            | Some b \<Rightarrow>
                if strip (elem_text (Some b)) = [] then None
                else (case b64decode (strip (elem_text (Some b))) of
                        Inl e \<Rightarrow> None
                      | Inr data \<Rightarrow> Some data))"
  using assms by (induction es) (simp_all add: Let_def split: sum.splits)

lemma lookup_image:
  "lookup_path root_el [''description'', ''title-info'', ''coverpage'', ''image''] =
     (case title_info_of root_el of
        None \<Rightarrow> None
      | Some ti \<Rightarrow>
          (case find_first_child ti ''coverpage'' of
             None \<Rightarrow> None
           | Some coverpage \<Rightarrow> find_first_child coverpage ''image''))"
  by (simp split: option.splits)

lemma cover_parse_cover:
  assumes "cover_bytes info = None"
  shows "cover_bytes (parse_cover b64decode root_el (title_info_of root_el) info) =
           spec_cover (lstrip CHR ''#'') b64decode root_el"
  using assms
  by (simp add: parse_cover_def cover_id_of_def spec_cover_def spec_image_href_def py_or_def
      truthy_def Let_def binary_loop_find lookup_image split: option.splits)

lemma parse_fb2_book_info_Inl:
  "et_parse path = Inl e \<Longrightarrow>
   parse_fb2_book_info et_parse b64decode path =
     Inr (BookInfo_default\<lparr>title := Some (splitext_root (basename path))\<rparr>)"
  by (simp add: parse_fb2_book_info_def)

lemma parse_fb2_book_info_Inr:
  assumes "et_parse path = Inr root_el"
  shows "\<exists>info. parse_fb2_book_info et_parse b64decode path = Inr info \<and>
     title info = Some (spec_title et_parse path) \<and>
     cover_bytes info = spec_cover (lstrip CHR ''#'') b64decode root_el \<and>
     full_text info = spec_full_text root_el"
proof -
  have d: "title BookInfo_default = None" "cover_bytes BookInfo_default = None"
    by (simp_all add: BookInfo_default_def)
  show ?thesis
    using assms
    by (simp add: parse_fb2_book_info_def Let_def full_text_parse_body cover_parse_cover d
        title_parse_title spec_title_def)
qed

subsection \<open>A record for every path\<close>

text \<open>
  Claim C1. For every path, whatever \<open>ET.parse\<close> and \<open>b64decode\<close> do, \<open>parse_fb2_book_info\<close>
  returns a record and raises nothing; when \<open>ET.parse\<close> raises, the record's title is the
  base name of the path without its extension and every other field is absent or
  empty.
\<close>

theorem parse_fb2_book_info_total:
  "(\<exists>info. parse_fb2_book_info et_parse b64decode path = Inr info) \<and>
   (\<forall>e. et_parse path = Inl e \<longrightarrow>
      parse_fb2_book_info et_parse b64decode path =
        Inr \<lparr>title = Some (splitext_root (basename path)), authors = [], genres = [],
             publisher = None, date = None, lang = None, description = None,
             cover_bytes = None, full_text = None\<rparr>)"
proof (cases "et_parse path")
  case (Inl e)
  then show ?thesis
    by (simp add: parse_fb2_book_info_Inl BookInfo_default_def)
next
  case (Inr root_el)
  then show ?thesis
    using parse_fb2_book_info_Inr [of et_parse path root_el b64decode] by auto
qed

theorem parse_fb2_book_info_total_witness:
  "parse_fb2_book_info (\<lambda>p. Inl ParseError) (\<lambda>s. Inl BinasciiError) ''/books/war.and.peace.fb2'' =
     Inr \<lparr>title = Some ''war.and.peace'', authors = [], genres = [],
          publisher = None, date = None, lang = None, description = None,
          cover_bytes = None, full_text = None\<rparr>"
proof -
  have "splitext_root (basename ''/books/war.and.peace.fb2'') = ''war.and.peace''"
    by code_simp
  with parse_fb2_book_info_total [of "\<lambda>p. Inl ParseError" "\<lambda>s. Inl BinasciiError"
      "''/books/war.and.peace.fb2''"]
  show ?thesis
    by simp
qed

subsection \<open>The title-only extractor\<close>

text \<open>
  Claim C9. For every path, \<open>extract_fb2_title\<close> returns the title of the record
  \<open>parse_fb2_book_info\<close> returns: the trimmed text of
  \<open>description/title-info/book-title\<close> when that is not empty, otherwise, and when
  parsing fails, the base name of the path without its extension.
\<close>

theorem title_only_agrees:
  "\<exists>info. parse_fb2_book_info et_parse b64decode path = Inr info \<and>
          extract_fb2_title et_parse path = Inr (spec_title et_parse path) \<and>
          title info = Some (spec_title et_parse path)"
proof (cases "et_parse path")
  case (Inl e)
  then show ?thesis
    by (simp add: parse_fb2_book_info_Inl extract_fb2_title_def spec_title_def)
next
  case (Inr root_el)
  have "extract_fb2_title et_parse path = Inr (spec_title et_parse path)"
    using Inr by (simp add: extract_fb2_title_def spec_title_def Let_def split: option.splits)
  with Inr parse_fb2_book_info_Inr [of et_parse path root_el b64decode] show ?thesis
    by auto
qed

theorem title_only_agrees_witness:
  "extract_fb2_title
     (\<lambda>p. Inr (Element ''{http://www.gribuser.ru/xml/fictionbook/2.0}FictionBook'' [] [] []
        [Element ''{http://www.gribuser.ru/xml/fictionbook/2.0}description'' [] [] []
          [Element ''{http://www.gribuser.ru/xml/fictionbook/2.0}title-info'' [] [] []
            [Element ''{http://www.gribuser.ru/xml/fictionbook/2.0}book-title'' [] '' Emma '' [] []]]]))
     ''/lib/e.fb2'' = Inr ''Emma''"
proof -
  let ?doc = "Element ''{http://www.gribuser.ru/xml/fictionbook/2.0}FictionBook'' [] [] []
        [Element ''{http://www.gribuser.ru/xml/fictionbook/2.0}description'' [] [] []
          [Element ''{http://www.gribuser.ru/xml/fictionbook/2.0}title-info'' [] [] []
            [Element ''{http://www.gribuser.ru/xml/fictionbook/2.0}book-title'' [] '' Emma '' [] []]]]"
  have "spec_title (\<lambda>p. Inr ?doc) ''/lib/e.fb2'' = ''Emma''"
    by code_simp
  with title_only_agrees [of "\<lambda>p. Inr ?doc" "\<lambda>s. Inl BinasciiError" "''/lib/e.fb2''"]
  show ?thesis
    by auto
qed

subsection \<open>The full text\<close>

text \<open>
  Claim C6 as stated joins the trimmed text of every \<open>p\<close> element. A body with the
  paragraphs \<open>A\<close>, an empty one and \<open>B\<close> gives the full text \<open>A\<close>, blank line, \<open>B\<close>; the join of
  all three trimmed texts has two blank lines.
\<close>

theorem full_text_every_paragraph_counterexample:
  "map_sum id full_text
     (parse_fb2_book_info
        (\<lambda>p. Inr (Element ''FictionBook'' [] [] []
           [Element ''body'' [] [] []
             [Element ''p'' [] ''A'' [] [], Element ''p'' [] [] [] [], Element ''p'' [] ''B'' [] []]]))
        (\<lambda>s. Inl BinasciiError) ''/lib/b.fb2'')
     = Inr (Some (''A'' @ [CHR 0x0A, CHR 0x0A] @ ''B'')) \<and>
   join [CHR 0x0A, CHR 0x0A]
     (map (\<lambda>p. strip (elem_text (Some p)))
        (body_paragraphs (Element ''FictionBook'' [] [] []
           [Element ''body'' [] [] []
             [Element ''p'' [] ''A'' [] [], Element ''p'' [] [] [] [], Element ''p'' [] ''B'' [] []]])))
     = ''A'' @ [CHR 0x0A, CHR 0x0A, CHR 0x0A, CHR 0x0A] @ ''B''"
proof -
  let ?doc = "Element ''FictionBook'' [] [] []
           [Element ''body'' [] [] []
             [Element ''p'' [] ''A'' [] [], Element ''p'' [] [] [] [], Element ''p'' [] ''B'' [] []]]"
  have 1: "spec_full_text ?doc = Some (''A'' @ [CHR 0x0A, CHR 0x0A] @ ''B'')"
    by code_simp
  have 2: "join [CHR 0x0A, CHR 0x0A]
     (map (\<lambda>p. strip (elem_text (Some p))) (body_paragraphs ?doc))
     = ''A'' @ [CHR 0x0A, CHR 0x0A, CHR 0x0A, CHR 0x0A] @ ''B''"
    by code_simp
  from parse_fb2_book_info_Inr [of "\<lambda>p. Inr ?doc" "''/lib/b.fb2''" ?doc "\<lambda>s. Inl BinasciiError"] 1
  have "map_sum id full_text
     (parse_fb2_book_info (\<lambda>p. Inr ?doc) (\<lambda>s. Inl BinasciiError) ''/lib/b.fb2'')
     = Inr (Some (''A'' @ [CHR 0x0A, CHR 0x0A] @ ''B''))"
    by auto
  with 2 show ?thesis
    by (rule conjI [rotated])
qed

text \<open>
  Claim C6, amended. For every successfully parsed document the full text is the join,
  with a blank line, of the non-empty trimmed texts of the descendant \<open>p\<close> elements of
  the root's \<open>body\<close> children, in document order across the bodies, and it is absent
  when there is no \<open>p\<close> element with a non-empty trimmed text. Two bodies holding the
  paragraphs \<open>A\<close>, \<open>B\<close> and \<open>C\<close>, \<open>D\<close> give \<open>A\<close>, \<open>B\<close>, \<open>C\<close>, \<open>D\<close> separated by blank lines.
\<close>

theorem full_text_joins_nonempty_paragraphs:
  "et_parse path = Inr root_el \<longrightarrow>
     (\<exists>info. parse_fb2_book_info et_parse b64decode path = Inr info \<and>
        full_text info = spec_full_text root_el \<and>
        ((\<forall>p \<in> set (body_paragraphs root_el). strip (elem_text (Some p)) = []) \<longrightarrow>
           full_text info = None))"
proof
  assume a: "et_parse path = Inr root_el"
  have "(\<forall>p \<in> set (body_paragraphs root_el). strip (elem_text (Some p)) = []) \<longrightarrow>
           spec_full_text root_el = None"
    by (auto simp: spec_full_text_def Let_def filter_empty_conv)
  with a parse_fb2_book_info_Inr [of et_parse path root_el b64decode]
  show "\<exists>info. parse_fb2_book_info et_parse b64decode path = Inr info \<and>
        full_text info = spec_full_text root_el \<and>
        ((\<forall>p \<in> set (body_paragraphs root_el). strip (elem_text (Some p)) = []) \<longrightarrow>
           full_text info = None)"
    by auto
qed

theorem full_text_joins_nonempty_paragraphs_witness:
  "map_sum id full_text
     (parse_fb2_book_info
        (\<lambda>p. Inr (Element ''FictionBook'' [] [] []
           [Element ''body'' [] [] []
              [Element ''p'' [] ''A'' [] [], Element ''p'' [] ''B'' [] []],
            Element ''{http://www.gribuser.ru/xml/fictionbook/2.0}body'' [(''name'', ''notes'')] [] []
              [Element ''section'' [] [] []
                 [Element ''p'' [] ''C'' [] [], Element ''p'' [] '' D '' [] []]]]))
        (\<lambda>s. Inl BinasciiError) ''/lib/b.fb2'')
     = Inr (Some (''A'' @ [CHR 0x0A, CHR 0x0A] @ ''B'' @ [CHR 0x0A, CHR 0x0A] @ ''C'' @
                  [CHR 0x0A, CHR 0x0A] @ ''D''))"
proof -
  let ?doc = "Element ''FictionBook'' [] [] []
           [Element ''body'' [] [] []
              [Element ''p'' [] ''A'' [] [], Element ''p'' [] ''B'' [] []],
            Element ''{http://www.gribuser.ru/xml/fictionbook/2.0}body'' [(''name'', ''notes'')] [] []
              [Element ''section'' [] [] []
                 [Element ''p'' [] ''C'' [] [], Element ''p'' [] '' D '' [] []]]]"
  have "spec_full_text ?doc =
          Some (''A'' @ [CHR 0x0A, CHR 0x0A] @ ''B'' @ [CHR 0x0A, CHR 0x0A] @ ''C'' @
                  [CHR 0x0A, CHR 0x0A] @ ''D'')"
    by code_simp
  with full_text_joins_nonempty_paragraphs
    [of "\<lambda>p. Inr ?doc" "''/lib/b.fb2''" ?doc "\<lambda>s. Inl BinasciiError"]
  show ?thesis
    by auto
qed

subsection \<open>The cover\<close>

text \<open>
  Claim C7 as stated strips a leading \<open>#\<close> from the reference. The source strips every
  leading \<open>#\<close> (\<open>lstrip\<close>): the reference \<open>##c\<close> finds the binary \<open>c\<close>, which stripping one \<open>#\<close>
  does not.
\<close>

theorem cover_single_hash_counterexample:
  "map_sum id cover_bytes
     (parse_fb2_book_info
        (\<lambda>p. Inr (Element ''FictionBook'' [] [] []
           [Element ''description'' [] [] []
              [Element ''title-info'' [] [] []
                 [Element ''coverpage'' [] [] []
                    [Element ''image'' [(''{http://www.w3.org/1999/xlink}href'', ''##c'')] [] [] []]]],
            Element ''binary'' [(''id'', ''c'')] ''QQ=='' [] []]))
        (\<lambda>s. if s = ''QQ=='' then Inr [65] else Inl BinasciiError) ''/lib/c.fb2'')
     = Inr (Some [65]) \<and>
   spec_cover strip_one_hash (\<lambda>s. if s = ''QQ=='' then Inr [65] else Inl BinasciiError)
     (Element ''FictionBook'' [] [] []
           [Element ''description'' [] [] []
              [Element ''title-info'' [] [] []
                 [Element ''coverpage'' [] [] []
                    [Element ''image'' [(''{http://www.w3.org/1999/xlink}href'', ''##c'')] [] [] []]]],
            Element ''binary'' [(''id'', ''c'')] ''QQ=='' [] []])
     = None"
proof -
  let ?doc = "Element ''FictionBook'' [] [] []
           [Element ''description'' [] [] []
              [Element ''title-info'' [] [] []
                 [Element ''coverpage'' [] [] []
                    [Element ''image'' [(''{http://www.w3.org/1999/xlink}href'', ''##c'')] [] [] []]]],
            Element ''binary'' [(''id'', ''c'')] ''QQ=='' [] []]"
  let ?b = "\<lambda>s. if s = ''QQ=='' then Inr [65 :: 8 word] else Inl BinasciiError"
  have 1: "spec_cover (lstrip CHR ''#'') ?b ?doc = Some [65]"
    by code_simp
  have 2: "spec_cover strip_one_hash ?b ?doc = None"
    by code_simp
  from parse_fb2_book_info_Inr [of "\<lambda>p. Inr ?doc" "''/lib/c.fb2''" ?doc ?b] 1
  have "map_sum id cover_bytes (parse_fb2_book_info (\<lambda>p. Inr ?doc) ?b ''/lib/c.fb2'')
          = Inr (Some [65])"
    by auto
  with 2 show ?thesis
    by (rule conjI [rotated])
qed

text \<open>
  Claim C7, amended. For every successfully parsed document, the cover is found from the
  unprefixed or XLink-namespaced \<open>href\<close> of \<open>title-info/coverpage/image\<close> with all its
  leading \<open>#\<close> stripped, resolved against the first \<open>binary\<close> element in document order
  with that \<open>id\<close>, whose trimmed text content, when not empty, is decoded; a missing
  reference, no matching \<open>binary\<close> and a decoding failure leave the cover absent, and
  nothing is raised.
\<close>

theorem cover_extraction:
  "et_parse path = Inr root_el \<longrightarrow>
     (\<exists>info. parse_fb2_book_info et_parse b64decode path = Inr info \<and>
        cover_bytes info = spec_cover (lstrip CHR ''#'') b64decode root_el \<and>
        (spec_image_href root_el = None \<longrightarrow> cover_bytes info = None) \<and>
        (\<forall>href. spec_image_href root_el = Some href \<and>
            find (\<lambda>e. local_name (tag e) = ''binary'' \<and>
                       map_of (attrib e) ''id'' = Some (lstrip CHR ''#'' href)) (iter root_el) = None
            \<longrightarrow> cover_bytes info = None) \<and>
        (\<forall>href b e. spec_image_href root_el = Some href \<and>
            find (\<lambda>e. local_name (tag e) = ''binary'' \<and>
                       map_of (attrib e) ''id'' = Some (lstrip CHR ''#'' href)) (iter root_el) = Some b \<and>
            b64decode (strip (elem_text (Some b))) = Inl e
            \<longrightarrow> cover_bytes info = None))"
proof
  assume a: "et_parse path = Inr root_el"
  from parse_fb2_book_info_Inr [of et_parse path root_el b64decode] a
  obtain info where i: "parse_fb2_book_info et_parse b64decode path = Inr info"
    "cover_bytes info = spec_cover (lstrip CHR ''#'') b64decode root_el"
    by auto
  have 1: "spec_image_href root_el = None \<longrightarrow> cover_bytes info = None"
    by (simp add: i(2) spec_cover_def)
  have 2: "\<forall>href. spec_image_href root_el = Some href \<and>
            find (\<lambda>e. local_name (tag e) = ''binary'' \<and>
                       map_of (attrib e) ''id'' = Some (lstrip CHR ''#'' href)) (iter root_el) = None
            \<longrightarrow> cover_bytes info = None"
    by (simp add: i(2) spec_cover_def)
  have 3: "\<forall>href b e. spec_image_href root_el = Some href \<and>
            find (\<lambda>e. local_name (tag e) = ''binary'' \<and>
                       map_of (attrib e) ''id'' = Some (lstrip CHR ''#'' href)) (iter root_el) = Some b \<and>
            b64decode (strip (elem_text (Some b))) = Inl e
            \<longrightarrow> cover_bytes info = None"
    by (auto simp: i(2) spec_cover_def)
  show "\<exists>info. parse_fb2_book_info et_parse b64decode path = Inr info \<and>
        cover_bytes info = spec_cover (lstrip CHR ''#'') b64decode root_el \<and>
        (spec_image_href root_el = None \<longrightarrow> cover_bytes info = None) \<and>
        (\<forall>href. spec_image_href root_el = Some href \<and>
            find (\<lambda>e. local_name (tag e) = ''binary'' \<and>
                       map_of (attrib e) ''id'' = Some (lstrip CHR ''#'' href)) (iter root_el) = None
            \<longrightarrow> cover_bytes info = None) \<and>
        (\<forall>href b e. spec_image_href root_el = Some href \<and>
            find (\<lambda>e. local_name (tag e) = ''binary'' \<and>
                       map_of (attrib e) ''id'' = Some (lstrip CHR ''#'' href)) (iter root_el) = Some b \<and>
            b64decode (strip (elem_text (Some b))) = Inl e
            \<longrightarrow> cover_bytes info = None)"
    by (rule exI [of _ info]) (intro conjI i 1 2 3)
qed

theorem cover_extraction_witness:
  "map_sum id cover_bytes
     (parse_fb2_book_info
        (\<lambda>p. Inr (Element ''FictionBook'' [] [] []
           [Element ''description'' [] [] []
              [Element ''title-info'' [] [] []
                 [Element ''coverpage'' [] [] []
                    [Element ''image'' [(''{http://www.w3.org/1999/xlink}href'', ''#cover.jpg'')] [] [] []]]],
            Element ''binary'' [(''id'', ''cover.jpg'')] ''QQ=='' [] []]))
        (\<lambda>s. if s = ''QQ=='' then Inr [65] else Inl BinasciiError) ''/lib/c.fb2'')
     = Inr (Some [65]) \<and>
   map_sum id cover_bytes
     (parse_fb2_book_info
        (\<lambda>p. Inr (Element ''FictionBook'' [] [] []
           [Element ''description'' [] [] []
              [Element ''title-info'' [] [] []
                 [Element ''coverpage'' [] [] []
                    [Element ''image'' [(''{http://www.w3.org/1999/xlink}href'', ''#cover.jpg'')] [] [] []]]],
            Element ''binary'' [(''id'', ''cover.jpg'')] ''QQ=='' [] []]))
        (\<lambda>s. Inl BinasciiError) ''/lib/c.fb2'')
     = Inr None"
proof -
  let ?doc = "Element ''FictionBook'' [] [] []
           [Element ''description'' [] [] []
              [Element ''title-info'' [] [] []
                 [Element ''coverpage'' [] [] []
                    [Element ''image'' [(''{http://www.w3.org/1999/xlink}href'', ''#cover.jpg'')] [] [] []]]],
            Element ''binary'' [(''id'', ''cover.jpg'')] ''QQ=='' [] []]"
  let ?b = "\<lambda>s. if s = ''QQ=='' then Inr [65 :: 8 word] else Inl BinasciiError"
  let ?f = "\<lambda>s::string. Inl BinasciiError :: py_exception + bytes"
  have 1: "spec_cover (lstrip CHR ''#'') ?b ?doc = Some [65]"
    by code_simp
  have 2: "spec_cover (lstrip CHR ''#'') ?f ?doc = None"
    by code_simp
  from cover_extraction [of "\<lambda>p. Inr ?doc" "''/lib/c.fb2''" ?doc ?b] 1
  have a: "map_sum id cover_bytes (parse_fb2_book_info (\<lambda>p. Inr ?doc) ?b ''/lib/c.fb2'')
          = Inr (Some [65])"
    by auto
  from cover_extraction [of "\<lambda>p. Inr ?doc" "''/lib/c.fb2''" ?doc ?f] 2
  have "map_sum id cover_bytes (parse_fb2_book_info (\<lambda>p. Inr ?doc) ?f ''/lib/c.fb2'')
          = Inr None"
    by auto
  with a show ?thesis
    by (rule conjI)
qed

end
